theory Spec2Isabelle
  imports Main "HOL-Library.Word"
begin

section \<open>Strings of the page\<close>

text \<open>
  A JavaScript string is a sequence of UTF-16 code units. The page reads strings only
  through \<^verbatim>\<open>trim\<close>, \<^verbatim>\<open>toLowerCase\<close>, \<^verbatim>\<open>===\<close> and two regular expressions without the
  \<^verbatim>\<open>u\<close> flag, all of which work on code units, so a string is a list of 16-bit words.
  \<open>js\<close> embeds an ASCII literal of the source.
\<close>

type_synonym code_unit = "16 word"
type_synonym jsstring = "code_unit list"

definition js :: "string \<Rightarrow> jsstring" where
  "js s = map of_char s"

text \<open>
  The code units that \<^verbatim>\<open>String.prototype.trim\<close> strips and that \<^verbatim>\<open>\s\<close> matches: the
  WhiteSpace and LineTerminator productions of ECMAScript (TAB, LF, VT, FF, CR, SP, NBSP,
  U+1680, U+2000 to U+200A, LS, PS, U+202F, U+205F, U+3000, U+FEFF).
\<close>

definition is_space :: "code_unit \<Rightarrow> bool" where
  "is_space c \<longleftrightarrow>
     (0x09 \<le> c \<and> c \<le> 0x0D) \<or> c = 0x20 \<or> c = 0xA0 \<or> c = 0x1680 \<or>
     (0x2000 \<le> c \<and> c \<le> 0x200A) \<or> c = 0x2028 \<or> c = 0x2029 \<or> c = 0x202F \<or>
     c = 0x205F \<or> c = 0x3000 \<or> c = 0xFEFF"

text \<open>\<^verbatim>\<open>\d\<close> without the \<^verbatim>\<open>u\<close> or \<^verbatim>\<open>i\<close> flag: the ten ASCII digits.\<close>

definition is_digit :: "code_unit \<Rightarrow> bool" where
  "is_digit c \<longleftrightarrow> 0x30 \<le> c \<and> c \<le> 0x39"

definition at_sign :: code_unit where
  "at_sign = 0x40"

definition dot :: code_unit where
  "dot = 0x2E"

text \<open>\<^verbatim>\<open>[^\s@]\<close>\<close>

definition not_space_at :: "code_unit \<Rightarrow> bool" where
  "not_space_at c \<longleftrightarrow> \<not> is_space c \<and> c \<noteq> at_sign"

definition trim :: "jsstring \<Rightarrow> jsstring" where
  "trim s = rev (dropWhile is_space (rev (dropWhile is_space s)))"

text \<open>
  \<^verbatim>\<open>toLowerCase\<close> is the Unicode case mapping of the JavaScript engine. The page only
  compares two of its results, so the functions below take it as a parameter and the
  theorems hold for every such function. \<open>toLowerCase_ascii\<close> is its restriction to
  strings of Basic Latin code units (A to Z become a to z), used to run ASCII examples.
\<close>

definition toLowerCase_ascii :: "jsstring \<Rightarrow> jsstring" where
  "toLowerCase_ascii s = map (\<lambda>c. if 0x41 \<le> c \<and> c \<le> 0x5A then c + 0x20 else c) s"

section \<open>Regular expressions\<close>

text \<open>
  The two patterns of \<^verbatim>\<open>validateField\<close> use character classes, concatenation and the
  quantifiers \<^verbatim>\<open>+\<close> and \<^verbatim>\<open>{m,n}\<close>, between \<^verbatim>\<open>^\<close> and \<^verbatim>\<open>$\<close>. Patterns are data; \<open>Fail\<close>,
  \<open>Eps\<close> and \<open>Either\<close> are needed for the residuals of a pattern after a code unit.
\<close>

datatype pattern =
    Fail
  | Eps
  | Class "code_unit \<Rightarrow> bool"
  | Either pattern pattern
  | Then pattern pattern
  | Many pattern

definition Lit :: "code_unit \<Rightarrow> pattern" where
  "Lit c = Class (\<lambda>x. x = c)"

text \<open>\<^verbatim>\<open>r+\<close>\<close>

definition OneOrMore :: "pattern \<Rightarrow> pattern" where
  "OneOrMore r = Then r (Many r)"

text \<open>\<^verbatim>\<open>r{n}\<close> and \<^verbatim>\<open>r{0,n}\<close>, and from them \<^verbatim>\<open>r{m,n}\<close>\<close>

fun exactly :: "nat \<Rightarrow> pattern \<Rightarrow> pattern" where
  "exactly 0 r = Eps"
| "exactly (Suc n) r = Then r (exactly n r)"

fun at_most :: "nat \<Rightarrow> pattern \<Rightarrow> pattern" where
  "at_most 0 r = Eps"
| "at_most (Suc n) r = Either Eps (Then r (at_most n r))"

definition Quant :: "nat \<Rightarrow> nat \<Rightarrow> pattern \<Rightarrow> pattern" where
  "Quant m n r = Then (exactly m r) (at_most (n - m) r)"

fun nullable :: "pattern \<Rightarrow> bool" where
  "nullable Fail = False"
| "nullable Eps = True"
| "nullable (Class p) = False"
| "nullable (Either a b) = (nullable a \<or> nullable b)"
| "nullable (Then a b) = (nullable a \<and> nullable b)"
| "nullable (Many a) = True"

fun residual :: "code_unit \<Rightarrow> pattern \<Rightarrow> pattern" where
  "residual c Fail = Fail"
| "residual c Eps = Fail"
| "residual c (Class p) = (if p c then Eps else Fail)"
| "residual c (Either a b) = Either (residual c a) (residual c b)"
| "residual c (Then a b) =
     (if nullable a then Either (Then (residual c a) b) (residual c b)
      else Then (residual c a) b)"
| "residual c (Many a) = Then (residual c a) (Many a)"

text \<open>
  \<^verbatim>\<open>/^r$/.test(s)\<close> with no flags: the anchors pin the match to the whole of \<open>s\<close>, so the
  test succeeds when \<open>r\<close> consumes \<open>s\<close> code unit by code unit.
\<close>

fun test :: "pattern \<Rightarrow> jsstring \<Rightarrow> bool" where
  "test r [] = nullable r"
| "test r (c # s) = test (residual c r) s"

text \<open>\<^verbatim>\<open>/^\d{10,15}$/\<close>\<close>

definition phone_pattern :: pattern where
  "phone_pattern = Quant 10 15 (Class is_digit)"

text \<open>\<^verbatim>\<open>/^[^\s@]+@[^\s@]+\.[^\s@]+$/\<close>\<close>

definition email_pattern :: pattern where
  "email_pattern =
     Then (OneOrMore (Class not_space_at))
       (Then (Lit at_sign)
         (Then (OneOrMore (Class not_space_at))
           (Then (Lit dot) (OneOrMore (Class not_space_at)))))"

section \<open>The field validator\<close>

definition validateField :: "jsstring \<Rightarrow> jsstring \<Rightarrow> jsstring" where
  "validateField key v =
     (if key = js ''name'' then
        (if trim v = [] then js ''Full name is required'' else [])
      else if key = js ''phone'' then
        (if trim v = [] then js ''Phone number is required''
         else if \<not> test phone_pattern v
           then js ''Invalid phone number format. Must be 10-15 digits''
         else [])
      else if key = js ''email'' then
        (if trim v = [] then js ''Email is required''
         else if \<not> test email_pattern v then js ''Invalid email format''
         else [])
      else if key = js ''college'' then
        (if trim v = [] then js ''College name is required'' else [])
      else if key = js ''nationalId'' then
        (if trim v = [] then js ''National ID is required'' else [])
      else [])"

text \<open>The words that the patterns denote, as sets, to state what \<open>test\<close> decides.\<close>

definition conc :: "jsstring set \<Rightarrow> jsstring set \<Rightarrow> jsstring set" where
  "conc A B = {u @ v | u v. u \<in> A \<and> v \<in> B}"

inductive_set rep :: "jsstring set \<Rightarrow> jsstring set" for A :: "jsstring set" where
  rep_nil: "[] \<in> rep A"
| rep_app: "u \<in> A \<Longrightarrow> v \<in> rep A \<Longrightarrow> u @ v \<in> rep A"

fun words :: "pattern \<Rightarrow> jsstring set" where
  "words Fail = {}"
| "words Eps = {[]}"
| "words (Class p) = {[c] | c. p c}"
| "words (Either a b) = words a \<union> words b"
| "words (Then a b) = conc (words a) (words b)"
| "words (Many a) = rep (words a)"

text \<open>
  The two readings of a well-formed e-mail address. \<^verbatim>\<open>s.split('@')\<close> gives the local
  part before the first \<^verbatim>\<open>@\<close> and the domain part after it.
\<close>

definition local_part :: "jsstring \<Rightarrow> jsstring" where
  "local_part s = takeWhile (\<lambda>c. c \<noteq> at_sign) s"

definition domain_part :: "jsstring \<Rightarrow> jsstring" where
  "domain_part s = tl (dropWhile (\<lambda>c. c \<noteq> at_sign) s)"

text \<open>
  The specification's wording: exactly one \<^verbatim>\<open>@\<close>, and a \<^verbatim>\<open>.\<close> somewhere in the domain.
\<close>

definition spec_email_shape :: "jsstring \<Rightarrow> bool" where
  "spec_email_shape s \<longleftrightarrow> count_list s at_sign = 1 \<and> dot \<in> set (domain_part s)"

text \<open>
  What the pattern accepts: no white space, exactly one \<^verbatim>\<open>@\<close>, something before it, and
  in the domain a \<^verbatim>\<open>.\<close> that is neither its first nor its last code unit.
\<close>

definition email_shape :: "jsstring \<Rightarrow> bool" where
  "email_shape s \<longleftrightarrow>
     (\<forall>c\<in>set s. \<not> is_space c) \<and> count_list s at_sign = 1 \<and> local_part s \<noteq> [] \<and>
     dot \<in> set (butlast (tl (domain_part s)))"

section \<open>Data of the page\<close>

text \<open>
  \<^verbatim>\<open>interface FormData\<close>. The two select fields hold the \<^verbatim>\<open>value\<close> of the chosen option,
  a string.
\<close>

record formData =
  name :: jsstring
  phone :: jsstring
  email :: jsstring
  gender :: jsstring
  college :: jsstring
  status :: jsstring
  nationalId :: jsstring

text \<open>
  \<^verbatim>\<open>interface Event\<close>; \<open>id_ev\<close>, \<open>name_ev\<close> and \<open>status_ev\<close> are its \<^verbatim>\<open>id\<close>, \<^verbatim>\<open>name\<close> and
  \<^verbatim>\<open>status\<close>. An optional or nullable property is an \<open>option\<close>.
\<close>

record event =
  id_ev :: jsstring
  name_ev :: jsstring
  image :: "jsstring option"
  description :: jsstring
  date :: jsstring
  registrations :: int
  status_ev :: "jsstring option"
  companyStatus :: "jsstring option"

text \<open>The body of the registration request: \<^verbatim>\<open>{companyName, eventName, ...formData}\<close>.\<close>

record registration =
  companyName :: jsstring
  eventName :: jsstring
  form :: formData

datatype request =
    Get_Events jsstring
  | Post_Register registration

text \<open>
  What a \<^verbatim>\<open>fetch\<close> of the event list gives: the promise rejects (or the body cannot be
  read as an object with an \<^verbatim>\<open>events\<close> array), or a response arrives with a status code
  and the events of its body.
\<close>

datatype lookup =
    Lookup_Rejected
  | Lookup_Response nat "event list"

text \<open>
  What the registration \<^verbatim>\<open>fetch\<close> gives: \<^verbatim>\<open>fetch\<close> or \<^verbatim>\<open>response.json()\<close> throws an
  \<^verbatim>\<open>Error\<close> with a message, or a response arrives with a status code and, when its body
  has one, the \<^verbatim>\<open>error\<close> string.
\<close>

datatype outcome =
    Register_Rejected jsstring
  | Register_Response nat "jsstring option"

text \<open>\<^verbatim>\<open>response.ok\<close>\<close>

definition ok :: "nat \<Rightarrow> bool" where
  "ok st \<longleftrightarrow> 200 \<le> st \<and> st \<le> 299"

text \<open>
  The state of the component: its nine \<^verbatim>\<open>useState\<close> cells, and \<open>requests\<close>, the list of
  the requests sent so far, which the source does not keep and which records here
  which handler reached the network.
\<close>

record page =
  formData :: formData
  formErrors :: "jsstring \<rightharpoonup> jsstring"
  loading :: bool
  submitting :: bool
  error :: jsstring
  success :: bool
  event :: "event option"
  eventDisabled :: bool
  companyDisabled :: bool
  requests :: "request list"

definition empty_form :: formData where
  "empty_form =
     \<lparr>name = [], phone = [], email = [], gender = js ''male'', college = [],
      status = js ''student'', nationalId = []\<rparr>"

definition initial :: page where
  "initial =
     \<lparr>formData = empty_form, formErrors = Map.empty, loading = True, submitting = False,
      error = [], success = False, event = None, eventDisabled = False,
      companyDisabled = False, requests = []\<rparr>"

section \<open>Loading the event\<close>

text \<open>
  \<^verbatim>\<open>data.events.find(e => e.id.trim().toLowerCase() === normalizedEventId)\<close>: the first
  event of the array that satisfies the comparison.
\<close>

definition find_event :: "(jsstring \<Rightarrow> jsstring) \<Rightarrow> jsstring \<Rightarrow> event list \<Rightarrow> event option" where
  "find_event toLowerCase eventId evs =
     (let normalizedEventId = toLowerCase (trim eventId)
      in find (\<lambda>e. toLowerCase (trim (id_ev e)) = normalizedEventId) evs)"

text \<open>
  The \<^verbatim>\<open>try\<close> block of \<^verbatim>\<open>fetchEventDetails\<close> after the response: \<open>Inl\<close> when it throws,
  with the state as the setters before the \<^verbatim>\<open>throw\<close> left it, \<open>Inr\<close> when it runs to its
  end.
\<close>

definition try_fetch :: "(jsstring \<Rightarrow> jsstring) \<Rightarrow> jsstring \<Rightarrow> lookup \<Rightarrow> page \<Rightarrow> page + page" where
  "try_fetch toLowerCase eventId resp s =
     (case resp of
        Lookup_Rejected \<Rightarrow> Inl s
      | Lookup_Response st evs \<Rightarrow>
          if \<not> ok st then
            (if st = 403 then Inl (s\<lparr>companyDisabled := True\<rparr>) else Inl s)
          else
            (case find_event toLowerCase eventId evs of
               None \<Rightarrow> Inl s
             | Some foundEvent \<Rightarrow>
                 (let s1 = s\<lparr>event := Some foundEvent\<rparr>;
                      s2 = (if status_ev foundEvent = Some (js ''disabled'')
                            then s1\<lparr>eventDisabled := True\<rparr> else s1);
                      s3 = (if companyStatus foundEvent = Some (js ''disabled'')
                            then s2\<lparr>companyDisabled := True\<rparr> else s2)
                  in Inr s3)))"

text \<open>
  One run of the effect. \<open>seen\<close> is the value of \<^verbatim>\<open>companyDisabled\<close> in the render that
  created the effect: the \<^verbatim>\<open>catch\<close> block reads that constant of its closure, not the
  cell that \<^verbatim>\<open>setCompanyDisabled\<close> has just written.
\<close>

definition fetchEventDetails ::
    "(jsstring \<Rightarrow> jsstring) \<Rightarrow> jsstring \<Rightarrow> jsstring \<Rightarrow> bool \<Rightarrow> lookup \<Rightarrow> page \<Rightarrow> page" where
  "fetchEventDetails toLowerCase company eventId seen resp s =
     (let s1 = s\<lparr>loading := True, requests := requests s @ [Get_Events company]\<rparr>;
          s2 = (case try_fetch toLowerCase eventId resp s1 of
                  Inl s' \<Rightarrow>
                    if \<not> seen
                    then s'\<lparr>error := js ''Event not found or no longer available''\<rparr>
                    else s'
                | Inr s' \<Rightarrow> s')
      in s2\<lparr>loading := False\<rparr>)"

text \<open>
  \<^verbatim>\<open>useEffect(..., [companyName, eventId, companyDisabled])\<close>: the effect runs after the
  first render, and once more when a run has changed \<^verbatim>\<open>companyDisabled\<close> (the two
  identifiers are fixed for a page). No setter writes \<^verbatim>\<open>false\<close> to that cell, so there are
  at most two runs; \<open>r1\<close> and \<open>r2\<close> are what the first and the second \<^verbatim>\<open>fetch\<close> give.
\<close>

definition page_load ::
    "(jsstring \<Rightarrow> jsstring) \<Rightarrow> jsstring \<Rightarrow> jsstring \<Rightarrow> lookup \<Rightarrow> lookup \<Rightarrow> page" where
  "page_load toLowerCase company eventId r1 r2 =
     (let s1 = fetchEventDetails toLowerCase company eventId
                 (companyDisabled initial) r1 initial
      in if companyDisabled s1 = companyDisabled initial then s1
         else fetchEventDetails toLowerCase company eventId (companyDisabled s1) r2 s1)"

section \<open>What the component renders\<close>

text \<open>
  The chain of early returns of the component, named after the states of the
  specification: the loading view, the blocking error view with its message, the
  blocking view for a disabled event or organization (the heading is chosen by
  \<^verbatim>\<open>eventDisabled\<close>), and the form tree, which shows the success message, or the form with
  its inputs disabled and the banner while submitting, or the form open for editing.
\<close>

datatype view =
    Loading
  | Fetch_Error jsstring
  | Event_Disabled
  | Org_Disabled
  | Success
  | Submitting jsstring
  | Editing

definition render :: "page \<Rightarrow> view" where
  "render s =
     (if loading s then Loading
      else if error s \<noteq> [] \<and> \<not> submitting s then Fetch_Error (error s)
      else if eventDisabled s \<or> companyDisabled s then
        (if eventDisabled s then Event_Disabled else Org_Disabled)
      else if success s then Success
      else if submitting s then Submitting (error s)
      else Editing)"

section \<open>Editing and submitting\<close>

text \<open>
  The seven controls that carry \<^verbatim>\<open>onChange={handleChange}\<close>, their \<^verbatim>\<open>name\<close> attributes,
  and the property of the form data that \<^verbatim>\<open>[name]: value\<close> writes for each.
\<close>

datatype field = Name | Phone | Email | Gender | College | Status | NationalId

fun field_name :: "field \<Rightarrow> jsstring" where
  "field_name Name = js ''name''"
| "field_name Phone = js ''phone''"
| "field_name Email = js ''email''"
| "field_name Gender = js ''gender''"
| "field_name College = js ''college''"
| "field_name Status = js ''status''"
| "field_name NationalId = js ''nationalId''"

fun get_field :: "field \<Rightarrow> formData \<Rightarrow> jsstring" where
  "get_field Name d = name d"
| "get_field Phone d = phone d"
| "get_field Email d = email d"
| "get_field Gender d = gender d"
| "get_field College d = college d"
| "get_field Status d = status d"
| "get_field NationalId d = nationalId d"

fun set_field :: "field \<Rightarrow> jsstring \<Rightarrow> formData \<Rightarrow> formData" where
  "set_field Name v d = d\<lparr>name := v\<rparr>"
| "set_field Phone v d = d\<lparr>phone := v\<rparr>"
| "set_field Email v d = d\<lparr>email := v\<rparr>"
| "set_field Gender v d = d\<lparr>gender := v\<rparr>"
| "set_field College v d = d\<lparr>college := v\<rparr>"
| "set_field Status v d = d\<lparr>status := v\<rparr>"
| "set_field NationalId v d = d\<lparr>nationalId := v\<rparr>"

definition handleChange :: "field \<Rightarrow> jsstring \<Rightarrow> page \<Rightarrow> page" where
  "handleChange f v s =
     (let errorMessage = validateField (field_name f) v
      in s\<lparr>formData := set_field f v (formData s),
           formErrors := (formErrors s)(field_name f \<mapsto> errorMessage)\<rparr>)"

text \<open>\<^verbatim>\<open>Object.entries(formData)\<close>, in the order of the object literal.\<close>

definition entries :: "formData \<Rightarrow> (jsstring \<times> jsstring) list" where
  "entries d = map (\<lambda>f. (field_name f, get_field f d))
                 [Name, Phone, Email, Gender, College, Status, NationalId]"

text \<open>The body of the \<^verbatim>\<open>forEach\<close> callback, on the pair \<^verbatim>\<open>errors\<close>, \<^verbatim>\<open>hasErrors\<close>.\<close>

fun check_entry ::
    "(jsstring \<rightharpoonup> jsstring) \<times> bool \<Rightarrow> jsstring \<times> jsstring \<Rightarrow> (jsstring \<rightharpoonup> jsstring) \<times> bool" where
  "check_entry (errors, hasErrors) (key, v) =
     (if key = js ''gender'' \<or> key = js ''status'' then (errors, hasErrors)
      else (let err = validateField key v
            in if err \<noteq> [] then (errors(key \<mapsto> err), True) else (errors, hasErrors)))"

definition validate_all :: "formData \<Rightarrow> (jsstring \<rightharpoonup> jsstring) \<times> bool" where
  "validate_all d = foldl check_entry (Map.empty, False) (entries d)"

text \<open>
  \<^verbatim>\<open>handleSubmit\<close> up to its \<^verbatim>\<open>await fetch(...)\<close>: it returns early, or it has sent the
  request with this body and waits.
\<close>

datatype pending =
    Stopped page
  | Awaiting page registration

definition submit_begin :: "jsstring \<Rightarrow> page \<Rightarrow> pending" where
  "submit_begin company s =
     (case event s of
        None \<Rightarrow> Stopped (s\<lparr>error :=
          js ''Event information is missing. Please refresh the page and try again.''\<rparr>)
      | Some ev \<Rightarrow>
          if eventDisabled s \<or> companyDisabled s then
            Stopped (s\<lparr>error := js ''Registration is currently disabled for this event.''\<rparr>)
          else
            (let (errors, hasErrors) = validate_all (formData s);
                 s1 = s\<lparr>formErrors := errors\<rparr>
             in if hasErrors then Stopped s1
                else
                  (let body = \<lparr>companyName = company, eventName = id_ev ev,
                                form = formData s\<rparr>
                   in Awaiting
                        (s1\<lparr>submitting := True, error := [],
                            requests := requests s1 @ [Post_Register body]\<rparr>)
                        body)))"

text \<open>The rest of \<^verbatim>\<open>handleSubmit\<close>, once the \<^verbatim>\<open>fetch\<close> has settled.\<close>

definition submit_end :: "outcome \<Rightarrow> page \<Rightarrow> page" where
  "submit_end r s =
     (let s1 =
        (case r of
           Register_Rejected msg \<Rightarrow> s\<lparr>error := msg\<rparr>
         | Register_Response st err \<Rightarrow>
             if \<not> ok st then
               s\<lparr>error := (case err of
                             None \<Rightarrow> js ''Failed to register for event''
                           | Some e \<Rightarrow> if e \<noteq> [] then e
                                       else js ''Failed to register for event'')\<rparr>
             else s\<lparr>success := True, formData := empty_form, formErrors := Map.empty\<rparr>)
      in s1\<lparr>submitting := False\<rparr>)"

definition handleSubmit :: "jsstring \<Rightarrow> (registration \<Rightarrow> outcome) \<Rightarrow> page \<Rightarrow> page" where
  "handleSubmit company respond s =
     (case submit_begin company s of
        Stopped s' \<Rightarrow> s'
      | Awaiting s' body \<Rightarrow> submit_end (respond body) s')"

section \<open>Sessions\<close>

text \<open>
  What a visitor can do after the page has loaded. The form and its submit button exist
  and are enabled only in the editing view, so an action in any other view changes
  nothing. A submit action carries what the registration endpoint would answer.
\<close>

datatype action =
    Change field jsstring
  | Submit outcome

definition step :: "jsstring \<Rightarrow> page \<Rightarrow> action \<Rightarrow> page" where
  "step company s a =
     (if render s \<noteq> Editing then s
      else (case a of
              Change f v \<Rightarrow> handleChange f v s
            | Submit r \<Rightarrow> handleSubmit company (\<lambda>_. r) s))"

definition session ::
    "(jsstring \<Rightarrow> jsstring) \<Rightarrow> jsstring \<Rightarrow> jsstring \<Rightarrow> lookup \<Rightarrow> lookup \<Rightarrow> action list \<Rightarrow> page" where
  "session toLowerCase company eventId r1 r2 acts =
     foldl (step company) (page_load toLowerCase company eventId r1 r2) acts"

section \<open>Example data\<close>

text \<open>
  The scenarios of the specification: the organization \<^verbatim>\<open>Acme\<close> lists one event whose
  stored identifier is \<^verbatim>\<open>launch-party\<close>, the page is opened as \<^verbatim>\<open>/Acme/Launch-Party\<close>, and
  Ada Lovelace fills in the form. \<open>shouting_party\<close> is a second event whose identifier
  differs from the first in case and surrounding blanks only; \<open>closed_party\<close> is the
  event with registration disabled.
\<close>

definition launch_party :: event where
  "launch_party =
     \<lparr>id_ev = js ''launch-party'', name_ev = js ''Launch Party'', image = None,
      description = js ''An evening with the team'', date = js ''2025-06-01'',
      registrations = 0, status_ev = None, companyStatus = None\<rparr>"

definition shouting_party :: event where
  "shouting_party = launch_party\<lparr>id_ev := js '' LAUNCH-PARTY ''\<rparr>"

definition closed_party :: event where
  "closed_party = launch_party\<lparr>status_ev := Some (js ''disabled'')\<rparr>"

definition ada_typing :: "action list" where
  "ada_typing =
     [Change Name (js ''Ada Lovelace''), Change Phone (js ''1234567890''),
      Change Email (js ''a@b.co''), Change Gender (js ''female''),
      Change College (js ''MIT''), Change Status (js ''student''),
      Change NationalId (js ''29912345678901'')]"

definition acme_session :: "action list \<Rightarrow> page" where
  "acme_session acts =
     session toLowerCase_ascii (js ''Acme'') (js ''Launch-Party'')
       (Lookup_Response 200 [launch_party]) Lookup_Rejected acts"

text \<open>
  The form as Ada has filled it in, the body that her submission sends, and the state
  of the page while that request is under way.
\<close>

definition ada_form :: formData where
  "ada_form =
     \<lparr>name = js ''Ada Lovelace'', phone = js ''1234567890'', email = js ''a@b.co'',
      gender = js ''female'', college = js ''MIT'', status = js ''student'',
      nationalId = js ''29912345678901''\<rparr>"

definition ada_body :: registration where
  "ada_body = \<lparr>companyName = js ''Acme'', eventName = js ''launch-party'', form = ada_form\<rparr>"

definition ada_waiting :: page where
  "ada_waiting =
     (acme_session ada_typing)
       \<lparr>formErrors := Map.empty, submitting := True, error := [],
        requests := requests (acme_session ada_typing) @ [Post_Register ada_body]\<rparr>"

section \<open>What the patterns accept\<close>

text \<open>
  \<open>test\<close> decides membership in the set of words of a pattern; from that, the phone
  pattern accepts the strings of 10 to 15 digits and the e-mail pattern the strings of
  the shape \<open>email_shape\<close>.
\<close>

lemma nullable_words: "nullable r \<longleftrightarrow> [] \<in> words r"
  by (induction r) (auto simp: conc_def intro: rep.rep_nil)

lemma rep_cons:
  "c # w \<in> rep A \<longleftrightarrow> (\<exists>u v. w = u @ v \<and> c # u \<in> A \<and> v \<in> rep A)"
proof
  assume "c # w \<in> rep A"
  then have "\<And>x. x \<in> rep A \<Longrightarrow> x = c # w \<Longrightarrow> \<exists>u v. w = u @ v \<and> c # u \<in> A \<and> v \<in> rep A"
  proof -
    fix x assume "x \<in> rep A" and "x = c # w"
    then show "\<exists>u v. w = u @ v \<and> c # u \<in> A \<and> v \<in> rep A"
    proof (induction arbitrary: rule: rep.induct)
      case rep_nil
      then show ?case by simp
    next
      case (rep_app u v)
      show ?case
      proof (cases u)
        case Nil
        with rep_app show ?thesis by simp
      next
        case (Cons a u')
        with rep_app.prems have "a = c" "w = u' @ v" by simp_all
        with Cons rep_app.hyps show ?thesis by blast
      qed
    qed
  qed
  with \<open>c # w \<in> rep A\<close> show "\<exists>u v. w = u @ v \<and> c # u \<in> A \<and> v \<in> rep A" by blast
next
  assume "\<exists>u v. w = u @ v \<and> c # u \<in> A \<and> v \<in> rep A"
  then obtain u v where "w = u @ v" "c # u \<in> A" "v \<in> rep A" by blast
  then show "c # w \<in> rep A" using rep.rep_app [of "c # u" A v] by simp
qed

lemma conc_cons:
  "c # w \<in> conc A B \<longleftrightarrow>
     (\<exists>u v. w = u @ v \<and> c # u \<in> A \<and> v \<in> B) \<or> ([] \<in> A \<and> c # w \<in> B)"
proof
  assume "c # w \<in> conc A B"
  then obtain u v where uv: "c # w = u @ v" "u \<in> A" "v \<in> B"
    by (auto simp: conc_def)
  show "(\<exists>u v. w = u @ v \<and> c # u \<in> A \<and> v \<in> B) \<or> ([] \<in> A \<and> c # w \<in> B)"
  proof (cases u)
    case Nil
    with uv show ?thesis by simp
  next
    case (Cons x u')
    with uv have "x = c" "w = u' @ v" by simp_all
    with Cons uv show ?thesis by blast
  qed
next
  assume "(\<exists>u v. w = u @ v \<and> c # u \<in> A \<and> v \<in> B) \<or> ([] \<in> A \<and> c # w \<in> B)"
  then show "c # w \<in> conc A B"
  proof
    assume "\<exists>u v. w = u @ v \<and> c # u \<in> A \<and> v \<in> B"
    then obtain u v where "w = u @ v" "c # u \<in> A" "v \<in> B" by blast
    then have "c # w = (c # u) @ v \<and> c # u \<in> A \<and> v \<in> B" by simp
    then show ?thesis unfolding conc_def by blast
  next
    assume "[] \<in> A \<and> c # w \<in> B"
    then have "c # w = [] @ (c # w) \<and> [] \<in> A \<and> c # w \<in> B" by simp
    then show ?thesis unfolding conc_def by blast
  qed
qed

lemma words_residual: "w \<in> words (residual c r) \<longleftrightarrow> c # w \<in> words r"
proof (induction r arbitrary: w)
  case (Then a b)
  have "w \<in> conc (words (residual c a)) (words b) \<longleftrightarrow>
          (\<exists>u v. w = u @ v \<and> c # u \<in> words a \<and> v \<in> words b)"
    using Then.IH(1) by (auto simp: conc_def)
  with Then.IH(2) show ?case
    by (auto simp: conc_cons nullable_words)
next
  case (Many a)
  then show ?case by (auto simp: rep_cons conc_def)
qed auto

lemma test_words: "test r s \<longleftrightarrow> s \<in> words r"
  by (induction s arbitrary: r) (simp_all add: nullable_words words_residual)



lemma conc_class:
  "w \<in> conc {[c] | c. p c} B \<longleftrightarrow> (\<exists>c v. w = c # v \<and> p c \<and> v \<in> B)"
proof
  assume "w \<in> conc {[c] | c. p c} B"
  then show "\<exists>c v. w = c # v \<and> p c \<and> v \<in> B" unfolding conc_def by auto
next
  assume "\<exists>c v. w = c # v \<and> p c \<and> v \<in> B"
  then obtain c v where "w = [c] @ v" "p c" "v \<in> B" by auto
  then show "w \<in> conc {[c] | c. p c} B" unfolding conc_def by blast
qed

lemma words_exactly_class:
  "words (exactly n (Class p)) = {w. length w = n \<and> (\<forall>c\<in>set w. p c)}"
proof (induction n)
  case 0
  then show ?case by auto
next
  case (Suc n)
  show ?case
  proof (rule set_eqI)
    fix w
    show "w \<in> words (exactly (Suc n) (Class p)) \<longleftrightarrow>
            w \<in> {w. length w = Suc n \<and> (\<forall>c\<in>set w. p c)}"
      using Suc by (cases w) (auto simp: conc_class)
  qed
qed

lemma words_at_most_class:
  "words (at_most n (Class p)) = {w. length w \<le> n \<and> (\<forall>c\<in>set w. p c)}"
proof (induction n)
  case 0
  then show ?case by auto
next
  case (Suc n)
  show ?case
  proof (rule set_eqI)
    fix w
    show "w \<in> words (at_most (Suc n) (Class p)) \<longleftrightarrow>
            w \<in> {w. length w \<le> Suc n \<and> (\<forall>c\<in>set w. p c)}"
      using Suc by (cases w) (auto simp: conc_class)
  qed
qed

lemma words_Quant_class:
  assumes "m \<le> n"
  shows "w \<in> words (Quant m n (Class p)) \<longleftrightarrow>
           m \<le> length w \<and> length w \<le> n \<and> (\<forall>c\<in>set w. p c)"
proof
  assume "w \<in> words (Quant m n (Class p))"
  then obtain u v where "w = u @ v" "length u = m" "\<forall>c\<in>set u. p c"
      "length v \<le> n - m" "\<forall>c\<in>set v. p c"
    by (auto simp: Quant_def conc_def words_exactly_class words_at_most_class)
  with assms show "m \<le> length w \<and> length w \<le> n \<and> (\<forall>c\<in>set w. p c)" by auto
next
  assume h: "m \<le> length w \<and> length w \<le> n \<and> (\<forall>c\<in>set w. p c)"
  let ?u = "take m w" and ?v = "drop m w"
  have "w = ?u @ ?v" by simp
  moreover have "length ?u = m" "length ?v \<le> n - m" using h by auto
  moreover have "\<forall>c\<in>set ?u. p c" "\<forall>c\<in>set ?v. p c"
    using h by (auto dest: in_set_takeD in_set_dropD)
  ultimately show "w \<in> words (Quant m n (Class p))"
    unfolding Quant_def words.simps conc_def words_exactly_class words_at_most_class
    by blast
qed

lemma rep_class_iff: "w \<in> rep {[c] | c. p c} \<longleftrightarrow> (\<forall>c\<in>set w. p c)"
proof (induction w)
  case Nil
  show ?case by (simp add: rep.rep_nil)
next
  case (Cons a w)
  have "a # w \<in> rep {[c] | c. p c} \<longleftrightarrow> p a \<and> w \<in> rep {[c] | c. p c}"
    by (auto simp: rep_cons)
  with Cons show ?case by simp
qed

lemma rep_class: "rep (words (Class p)) = {w. \<forall>c\<in>set w. p c}"
  by (auto simp: rep_class_iff)

lemma words_OneOrMore_class: "words (OneOrMore (Class p)) = {w. w \<noteq> [] \<and> (\<forall>c\<in>set w. p c)}"
proof (rule set_eqI)
  fix w
  show "w \<in> words (OneOrMore (Class p)) \<longleftrightarrow> w \<in> {w. w \<noteq> [] \<and> (\<forall>c\<in>set w. p c)}"
    by (cases w) (auto simp: OneOrMore_def conc_class rep_class_iff)
qed

lemma words_Lit: "words (Lit c) = {[c]}"
  by (auto simp: Lit_def)

lemma words_email_pattern:
  "s \<in> words email_pattern \<longleftrightarrow>
     (\<exists>l d1 d2. s = l @ at_sign # d1 @ dot # d2 \<and> l \<noteq> [] \<and> d1 \<noteq> [] \<and> d2 \<noteq> [] \<and>
        (\<forall>c\<in>set l. not_space_at c) \<and> (\<forall>c\<in>set d1. not_space_at c) \<and>
        (\<forall>c\<in>set d2. not_space_at c))"
  unfolding email_pattern_def words.simps words_OneOrMore_class words_Lit conc_def
  by (auto; blast)



lemma trim_empty: "trim s = [] \<longleftrightarrow> (\<forall>c\<in>set s. is_space c)"
proof -
  have "trim s = [] \<longleftrightarrow> (\<forall>c\<in>set (dropWhile is_space s). is_space c)"
    by (simp add: trim_def dropWhile_eq_Nil_conv)
  also have "\<dots> \<longleftrightarrow> dropWhile is_space s = []"
  proof
    assume a: "\<forall>c\<in>set (dropWhile is_space s). is_space c"
    show "dropWhile is_space s = []"
    proof (rule ccontr)
      assume n: "dropWhile is_space s \<noteq> []"
      then have "\<not> is_space (hd (dropWhile is_space s))" by (rule hd_dropWhile)
      moreover have "hd (dropWhile is_space s) \<in> set (dropWhile is_space s)"
        using n by simp
      ultimately show False using a by blast
    qed
  next
    assume e: "dropWhile is_space s = []"
    show "\<forall>c\<in>set (dropWhile is_space s). is_space c" unfolding e by simp
  qed
  also have "\<dots> \<longleftrightarrow> (\<forall>c\<in>set s. is_space c)"
    by (simp add: dropWhile_eq_Nil_conv)
  finally show ?thesis .
qed

lemma digit_not_space: "is_digit c \<Longrightarrow> \<not> is_space c"
proof -
  assume "is_digit c"
  then have "48 \<le> unat c" "unat c \<le> 57"
    by (simp_all add: is_digit_def word_le_nat_alt)
  then show ?thesis
    by (auto simp: is_space_def word_le_nat_alt)
qed

lemma misc_chars: "\<not> is_space dot" "\<not> is_space at_sign" "dot \<noteq> at_sign"
  unfolding is_space_def dot_def at_sign_def by simp_all

lemma test_phone:
  "test phone_pattern s \<longleftrightarrow> 10 \<le> length s \<and> length s \<le> 15 \<and> (\<forall>c\<in>set s. is_digit c)"
  by (simp add: test_words phone_pattern_def words_Quant_class)

lemma js_neq: "js ''phone'' \<noteq> js ''name''" "js ''email'' \<noteq> js ''name''"
  "js ''email'' \<noteq> js ''phone''"
  by (simp_all add: js_def)

lemma js_Nil: "js s = [] \<longleftrightarrow> s = []"
  by (simp add: js_def)

lemma validate_phone:
  "validateField (js ''phone'') s = [] \<longleftrightarrow>
     10 \<le> length s \<and> length s \<le> 15 \<and> (\<forall>c\<in>set s. is_digit c)"
proof -
  have v: "validateField (js ''phone'') s =
     (if trim s = [] then js ''Phone number is required''
      else if \<not> test phone_pattern s
        then js ''Invalid phone number format. Must be 10-15 digits'' else [])"
    by (simp add: validateField_def js_neq)
  show ?thesis
  proof (cases "trim s = []")
    case True
    then have sp: "\<forall>c\<in>set s. is_space c" by (simp add: trim_empty)
    have "\<not> (10 \<le> length s \<and> (\<forall>c\<in>set s. is_digit c))"
    proof
      assume h: "10 \<le> length s \<and> (\<forall>c\<in>set s. is_digit c)"
      then obtain c where "c \<in> set s" by (cases s) auto
      with h sp digit_not_space show False by blast
    qed
    with True v show ?thesis by (auto simp: js_Nil)
  next
    case False
    with v show ?thesis by (simp add: test_phone js_Nil)
  qed
qed



lemma inner_dot:
  "dot \<in> set (butlast (tl d)) \<longleftrightarrow> (\<exists>d1 d2. d = d1 @ dot # d2 \<and> d1 \<noteq> [] \<and> d2 \<noteq> [])"
proof
  assume "dot \<in> set (butlast (tl d))"
  then obtain ys zs where yz: "butlast (tl d) = ys @ dot # zs"
    by (auto dest: split_list)
  then have ne: "tl d \<noteq> []" by auto
  then have "tl d = butlast (tl d) @ [last (tl d)]" by simp
  with yz have t: "tl d = ys @ dot # zs @ [last (tl d)]" by simp
  from ne have "d = hd d # tl d" by (cases d) auto
  with t have "d = (hd d # ys) @ dot # (zs @ [last (tl d)])" by simp
  then show "\<exists>d1 d2. d = d1 @ dot # d2 \<and> d1 \<noteq> [] \<and> d2 \<noteq> []" by blast
next
  assume "\<exists>d1 d2. d = d1 @ dot # d2 \<and> d1 \<noteq> [] \<and> d2 \<noteq> []"
  then obtain d1 d2 where d: "d = d1 @ dot # d2" "d1 \<noteq> []" "d2 \<noteq> []" by blast
  then have "tl d = tl d1 @ dot # d2" by simp
  with d have "butlast (tl d) = tl d1 @ dot # butlast d2" by (simp add: butlast_append)
  then show "dot \<in> set (butlast (tl d))" by simp
qed

lemma split_at_sign:
  assumes "count_list s at_sign = 1"
  shows "s = local_part s @ at_sign # domain_part s"
    and "at_sign \<notin> set (local_part s)" and "at_sign \<notin> set (domain_part s)"
proof -
  let ?P = "\<lambda>c. c \<noteq> at_sign"
  have "at_sign \<in> set s" using assms by (metis count_list_0_iff zero_neq_one)
  then have ne: "dropWhile ?P s \<noteq> []" by (auto simp: dropWhile_eq_Nil_conv)
  then have "hd (dropWhile ?P s) = at_sign" using hd_dropWhile [of ?P s] by simp
  with ne have dw: "dropWhile ?P s = at_sign # domain_part s"
    unfolding domain_part_def by (cases "dropWhile ?P s") auto
  have "s = takeWhile ?P s @ dropWhile ?P s" by simp
  with dw show s: "s = local_part s @ at_sign # domain_part s"
    unfolding local_part_def by simp
  show l: "at_sign \<notin> set (local_part s)"
    unfolding local_part_def by (auto dest: set_takeWhileD)
  have "count_list s at_sign =
          count_list (local_part s) at_sign + 1 + count_list (domain_part s) at_sign"
    by (subst s) simp
  with assms have "count_list (domain_part s) at_sign = 0" by simp
  then show "at_sign \<notin> set (domain_part s)" by (simp add: count_list_0_iff)
qed

lemma test_email: "test email_pattern s \<longleftrightarrow> email_shape s"
proof
  assume "test email_pattern s"
  then obtain l d1 d2 where s: "s = l @ at_sign # d1 @ dot # d2"
    and ne: "l \<noteq> []" "d1 \<noteq> []" "d2 \<noteq> []"
    and ok: "\<forall>c\<in>set l. not_space_at c" "\<forall>c\<in>set d1. not_space_at c"
      "\<forall>c\<in>set d2. not_space_at c"
    unfolding test_words words_email_pattern by blast
  from ok have nat: "at_sign \<notin> set l" "at_sign \<notin> set d1" "at_sign \<notin> set d2"
    by (auto simp: not_space_at_def)
  have sp: "\<forall>c\<in>set s. \<not> is_space c"
    using ok misc_chars unfolding s by (auto simp: not_space_at_def)
  have cnt: "count_list s at_sign = 1"
    using nat misc_chars unfolding s by (simp add: count_list_0_iff)
  have "takeWhile (\<lambda>c. c \<noteq> at_sign) (l @ at_sign # d1 @ dot # d2) =
          l @ takeWhile (\<lambda>c. c \<noteq> at_sign) (at_sign # d1 @ dot # d2)"
    by (rule takeWhile_append2) (use nat in auto)
  then have lp: "local_part s = l"
    unfolding s local_part_def by simp
  have "dropWhile (\<lambda>c. c \<noteq> at_sign) (l @ at_sign # d1 @ dot # d2) =
          dropWhile (\<lambda>c. c \<noteq> at_sign) (at_sign # d1 @ dot # d2)"
    by (rule dropWhile_append2) (use nat in auto)
  then have dp: "domain_part s = d1 @ dot # d2"
    unfolding s domain_part_def by simp
  have "dot \<in> set (butlast (tl (domain_part s)))"
    unfolding inner_dot dp using ne by blast
  with sp cnt lp ne show "email_shape s" by (simp add: email_shape_def)
next
  assume e: "email_shape s"
  then have cnt: "count_list s at_sign = 1" and sp: "\<forall>c\<in>set s. \<not> is_space c"
    and l: "local_part s \<noteq> []" and "dot \<in> set (butlast (tl (domain_part s)))"
    by (simp_all add: email_shape_def)
  then obtain d1 d2 where d: "domain_part s = d1 @ dot # d2" "d1 \<noteq> []" "d2 \<noteq> []"
    unfolding inner_dot by blast
  note sa = split_at_sign [OF cnt]
  have s: "s = local_part s @ at_sign # d1 @ dot # d2" using sa(1) d(1) by simp
  have "set s = set (local_part s) \<union> {at_sign, dot} \<union> set d1 \<union> set d2"
    by (subst s) auto
  then have "set (local_part s) \<subseteq> set s" "set d1 \<subseteq> set s" "set d2 \<subseteq> set s"
    by auto
  moreover have "at_sign \<notin> set d1" "at_sign \<notin> set d2" using sa(3) d(1) by simp_all
  ultimately have "\<forall>c\<in>set (local_part s). not_space_at c" "\<forall>c\<in>set d1. not_space_at c"
      "\<forall>c\<in>set d2. not_space_at c"
    using sp sa(2) unfolding not_space_at_def by blast+
  with s l d show "test email_pattern s"
    unfolding test_words words_email_pattern by blast
qed

lemma validate_email: "validateField (js ''email'') s = [] \<longleftrightarrow> email_shape s"
proof -
  have v: "validateField (js ''email'') s =
     (if trim s = [] then js ''Email is required''
      else if \<not> test email_pattern s then js ''Invalid email format'' else [])"
    by (simp add: validateField_def js_neq)
  show ?thesis
  proof (cases "trim s = []")
    case True
    then have sp: "\<forall>c\<in>set s. is_space c" by (simp add: trim_empty)
    have "\<not> email_shape s"
    proof
      assume h: "email_shape s"
      then have "s \<noteq> []" by (auto simp: email_shape_def)
      then obtain c where "c \<in> set s" by (cases s) auto
      with h sp show False by (auto simp: email_shape_def)
    qed
    with True v show ?thesis by (simp add: js_Nil)
  next
    case False
    with v show ?thesis by (simp add: test_email js_Nil)
  qed
qed

section \<open>Facts about loading\<close>

text \<open>
  The outcomes of \<open>page_load\<close>: what a response with status 403 leaves behind, and
  that the editing view is reached only by one run of the effect that found an enabled
  event.
\<close>

lemma ok_403: "\<not> ok 403"
  by (simp add: ok_def)

lemma not_found_message: "js ''Event not found or no longer available'' \<noteq> []"
  by (simp add: js_Nil)

lemma first_run_403:
  "fetchEventDetails lc cn eid False (Lookup_Response 403 evs) initial =
     initial\<lparr>loading := False, companyDisabled := True,
       error := js ''Event not found or no longer available'',
       requests := [Get_Events cn]\<rparr>"
  by (simp add: fetchEventDetails_def try_fetch_def ok_403 initial_def)

lemma fetch_keeps:
  "error (fetchEventDetails lc cn eid True r s) = error s"
  "submitting (fetchEventDetails lc cn eid b r s) = submitting s"
  "loading (fetchEventDetails lc cn eid b r s) = False"
  "success (fetchEventDetails lc cn eid b r s) = success s"
  "formData (fetchEventDetails lc cn eid b r s) = formData s"
  "formErrors (fetchEventDetails lc cn eid b r s) = formErrors s"
  by (auto simp: fetchEventDetails_def try_fetch_def Let_def
      split: lookup.splits option.splits sum.splits)

lemma load_403:
  "render (page_load lc cn eid (Lookup_Response 403 evs) r2) =
     Fetch_Error (js ''Event not found or no longer available'')"
proof -
  let ?s1 = "fetchEventDetails lc cn eid False (Lookup_Response 403 evs) initial"
  have cd: "companyDisabled initial = False" by (simp add: initial_def)
  have s1: "companyDisabled ?s1" "error ?s1 = js ''Event not found or no longer available''"
    "submitting ?s1 = False"
    by (simp_all add: first_run_403) (simp add: initial_def)
  have L: "page_load lc cn eid (Lookup_Response 403 evs) r2 =
             fetchEventDetails lc cn eid True r2 ?s1"
    using s1(1) by (simp add: page_load_def cd Let_def)
  show ?thesis
    unfolding L render_def using s1 not_found_message by (simp add: fetch_keeps)
qed

lemma load_event_disabled:
  assumes "ok st" and "find_event lc eid evs = Some e"
    and "status_ev e = Some (js ''disabled'')"
    and "companyStatus e \<noteq> Some (js ''disabled'')"
  shows "render (page_load lc cn eid (Lookup_Response st evs) r2) = Event_Disabled"
  using assms
  by (simp add: page_load_def fetchEventDetails_def try_fetch_def initial_def render_def)

lemma load_flags:
  "loading (page_load lc cn eid r1 r2) = False"
  "submitting (page_load lc cn eid r1 r2) = False"
  "success (page_load lc cn eid r1 r2) = False"
  "formData (page_load lc cn eid r1 r2) = empty_form"
  "formErrors (page_load lc cn eid r1 r2) = Map.empty"
  by (simp_all add: page_load_def Let_def fetch_keeps) (simp_all add: initial_def)

lemma load_editing:
  assumes "render (page_load lc cn eid r1 r2) = Editing"
  shows "\<exists>st evs e. r1 = Lookup_Response st evs \<and> ok st \<and> find_event lc eid evs = Some e \<and>
           companyStatus e \<noteq> Some (js ''disabled'') \<and> status_ev e \<noteq> Some (js ''disabled'') \<and>
           page_load lc cn eid r1 r2 =
             initial\<lparr>loading := False, event := Some e, requests := [Get_Events cn]\<rparr>"
proof -
  let ?s1 = "fetchEventDetails lc cn eid False r1 initial"
  have cd: "companyDisabled initial = False" by (simp add: initial_def)
  show ?thesis
  proof (cases "companyDisabled ?s1")
    case True
    then have L: "page_load lc cn eid r1 r2 = fetchEventDetails lc cn eid True r2 ?s1"
      by (simp add: page_load_def cd Let_def)
    have "companyDisabled (fetchEventDetails lc cn eid True r2 ?s1)"
      using True
      by (auto simp: fetchEventDetails_def [of lc cn eid True] try_fetch_def Let_def
          split: lookup.splits option.splits)
    with assms L show ?thesis by (auto simp: render_def split: if_splits)
  next
    case False
    then have L: "page_load lc cn eid r1 r2 = ?s1"
      by (simp add: page_load_def cd Let_def)
    from assms show ?thesis unfolding L
      by (auto simp: fetchEventDetails_def try_fetch_def Let_def render_def initial_def
          not_found_message split: lookup.splits option.splits if_splits)
  qed
qed

section \<open>Facts about validating the whole form\<close>

text \<open>
  The \<^verbatim>\<open>forEach\<close> loop of \<^verbatim>\<open>handleSubmit\<close> in closed form: the error map holds, for each
  field, the message of \<open>validateField\<close> when it is not empty, and the flag tells whether
  there is such a field.
\<close>

lemma field_name_inj: "field_name f = field_name g \<longleftrightarrow> f = g"
  by (cases f; cases g; simp add: js_def)

lemma validate_select: "validateField (js ''gender'') v = []" "validateField (js ''status'') v = []"
  by (simp_all add: validateField_def) (simp_all add: js_def)

lemma check_entry_eq:
  "check_entry (m, h) (k, v) =
     (if validateField k v = [] then (m, h) else (m(k \<mapsto> validateField k v), True))"
  by (auto simp: validate_select Let_def)

lemma foldl_check_entry:
  "distinct (map fst es) \<Longrightarrow>
   foldl check_entry (m, h) es =
     (\<lambda>k. case map_of es k of
             None \<Rightarrow> m k
           | Some v \<Rightarrow> if validateField k v = [] then m k else Some (validateField k v),
      h \<or> (\<exists>(k, v)\<in>set es. validateField k v \<noteq> []))"
proof (induction es arbitrary: m h)
  case Nil
  show ?case by simp
next
  case (Cons kv es)
  obtain k v where kv: "kv = (k, v)" by (cases kv)
  from Cons.prems kv have d: "distinct (map fst es)" and nk: "map_of es k = None"
    by (auto simp: map_of_eq_None_iff)
  show ?case
  proof (cases "validateField k v = []")
    case True
    have "foldl check_entry (m, h) (kv # es) = foldl check_entry (m, h) es"
      using True kv by (simp add: check_entry_eq del: check_entry.simps)
    also note Cons.IH [OF d]
    finally show ?thesis using True kv nk
      by (auto simp: fun_eq_iff split: option.splits)
  next
    case False
    have "foldl check_entry (m, h) (kv # es) =
            foldl check_entry (m(k \<mapsto> validateField k v), True) es"
      using False kv by (simp add: check_entry_eq del: check_entry.simps)
    also note Cons.IH [OF d]
    finally show ?thesis using False kv nk
      by (auto simp: fun_eq_iff split: option.splits)
  qed
qed

lemma entries_distinct: "distinct (map fst (entries d))"
  by (simp add: entries_def js_def)

lemma map_of_entries: "map_of (entries d) (field_name f) = Some (get_field f d)"
  by (cases f) (simp_all add: entries_def js_def)

lemma map_of_entries_other: "k \<notin> range field_name \<Longrightarrow> map_of (entries d) k = None"
proof -
  assume "k \<notin> range field_name"
  then have "\<forall>f. k \<noteq> field_name f" by auto
  then have "k \<noteq> field_name Name" "k \<noteq> field_name Phone" "k \<noteq> field_name Email"
    "k \<noteq> field_name Gender" "k \<noteq> field_name College" "k \<noteq> field_name Status"
    "k \<noteq> field_name NationalId" by blast+
  then show ?thesis by (simp add: entries_def)
qed

lemma set_entries: "set (entries d) = {(field_name f, get_field f d) | f. True}"
proof -
  have "UNIV = {Name, Phone, Email, Gender, College, Status, NationalId}"
    using field.exhaust by auto
  then have "set [Name, Phone, Email, Gender, College, Status, NationalId] = UNIV" by simp
  then show ?thesis unfolding entries_def set_map by auto
qed

lemma validate_all_eq:
  "validate_all d =
     (\<lambda>k. case map_of (entries d) k of
             None \<Rightarrow> None
           | Some v \<Rightarrow> if validateField k v = [] then None else Some (validateField k v),
      \<exists>f. validateField (field_name f) (get_field f d) \<noteq> [])"
  unfolding validate_all_def foldl_check_entry [OF entries_distinct] set_entries
  by auto



lemma validate_cases:
  "validateField (js ''name'') v = (if trim v = [] then js ''Full name is required'' else [])"
  "validateField (js ''phone'') v =
     (if trim v = [] then js ''Phone number is required''
      else if \<not> test phone_pattern v
        then js ''Invalid phone number format. Must be 10-15 digits'' else [])"
  "validateField (js ''email'') v =
     (if trim v = [] then js ''Email is required''
      else if \<not> test email_pattern v then js ''Invalid email format'' else [])"
  "validateField (js ''college'') v =
     (if trim v = [] then js ''College name is required'' else [])"
  "validateField (js ''nationalId'') v =
     (if trim v = [] then js ''National ID is required'' else [])"
  unfolding validateField_def by (simp_all add: js_def)

section \<open>Facts about the handlers and sessions\<close>

text \<open>
  The handlers leave the event, the two disabled flags and \<^verbatim>\<open>loading\<close> alone, so a session
  that shows the form still holds the event that the resolver selected.
\<close>

lemma handleChange_keeps:
  "loading (handleChange f v s) = loading s"
  "submitting (handleChange f v s) = submitting s"
  "error (handleChange f v s) = error s"
  "success (handleChange f v s) = success s"
  "event (handleChange f v s) = event s"
  "eventDisabled (handleChange f v s) = eventDisabled s"
  "companyDisabled (handleChange f v s) = companyDisabled s"
  "requests (handleChange f v s) = requests s"
  by (simp_all add: handleChange_def Let_def)

lemma submit_end_keeps:
  "loading (submit_end r s) = loading s"
  "submitting (submit_end r s) = False"
  "event (submit_end r s) = event s"
  "eventDisabled (submit_end r s) = eventDisabled s"
  "companyDisabled (submit_end r s) = companyDisabled s"
  "requests (submit_end r s) = requests s"
  by (simp_all add: submit_end_def Let_def split: outcome.splits)

lemma handleSubmit_keeps:
  "loading (handleSubmit cn respond s) = loading s"
  "event (handleSubmit cn respond s) = event s"
  "eventDisabled (handleSubmit cn respond s) = eventDisabled s"
  "companyDisabled (handleSubmit cn respond s) = companyDisabled s"
  "\<not> submitting s \<Longrightarrow> \<not> submitting (handleSubmit cn respond s)"
  by (auto simp: handleSubmit_def submit_begin_def submit_end_keeps Let_def
      split: option.splits prod.splits)

lemma step_stuck: "render s \<noteq> Editing \<Longrightarrow> foldl (step cn) s acts = s"
  by (induction acts) (simp_all add: step_def)

lemma step_keeps:
  "loading (step cn s a) = loading s"
  "event (step cn s a) = event s"
  "eventDisabled (step cn s a) = eventDisabled s"
  "companyDisabled (step cn s a) = companyDisabled s"
  "\<not> submitting s \<Longrightarrow> \<not> submitting (step cn s a)"
  by (auto simp: step_def handleChange_keeps handleSubmit_keeps split: action.splits)

lemma steps_keep:
  "loading (foldl (step cn) s acts) = loading s \<and>
   event (foldl (step cn) s acts) = event s \<and>
   eventDisabled (foldl (step cn) s acts) = eventDisabled s \<and>
   companyDisabled (foldl (step cn) s acts) = companyDisabled s \<and>
   (\<not> submitting s \<longrightarrow> \<not> submitting (foldl (step cn) s acts))"
  by (induction acts arbitrary: s) (simp_all add: step_keeps)

lemma session_editing:
  assumes "render (session lc cn eid r1 r2 acts) = Editing"
  shows "\<exists>st evs e. r1 = Lookup_Response st evs \<and> ok st \<and>
           find_event lc eid evs = Some e \<and>
           event (session lc cn eid r1 r2 acts) = Some e"
proof -
  let ?L = "page_load lc cn eid r1 r2"
  have "render ?L = Editing"
  proof (rule ccontr)
    assume "render ?L \<noteq> Editing"
    then have "session lc cn eid r1 r2 acts = ?L"
      unfolding session_def by (rule step_stuck)
    with assms \<open>render ?L \<noteq> Editing\<close> show False by simp
  qed
  then obtain st evs e where r1: "r1 = Lookup_Response st evs" "ok st"
      "find_event lc eid evs = Some e"
    and L: "?L = initial\<lparr>loading := False, event := Some e, requests := [Get_Events cn]\<rparr>"
    using load_editing by blast
  from L have "event ?L = Some e" by simp
  then have "event (session lc cn eid r1 r2 acts) = Some e"
    unfolding session_def using steps_keep [of cn ?L acts] by simp
  with r1 show ?thesis by blast
qed

lemma editing_flags:
  "render s = Editing \<longleftrightarrow>
     \<not> loading s \<and> error s = [] \<and> \<not> submitting s \<and> \<not> eventDisabled s \<and>
     \<not> companyDisabled s \<and> \<not> success s"
  by (auto simp: render_def)

lemma invalid_field:
  assumes "trim (name d) = [] \<or> trim (phone d) = [] \<or> \<not> test phone_pattern (phone d) \<or>
     trim (email d) = [] \<or> \<not> test email_pattern (email d) \<or> trim (college d) = [] \<or>
     trim (nationalId d) = []"
  shows "\<exists>f. validateField (field_name f) (get_field f d) \<noteq> []"
proof -
  have "validateField (field_name Name) (get_field Name d) \<noteq> [] \<or>
        validateField (field_name Phone) (get_field Phone d) \<noteq> [] \<or>
        validateField (field_name Email) (get_field Email d) \<noteq> [] \<or>
        validateField (field_name College) (get_field College d) \<noteq> [] \<or>
        validateField (field_name NationalId) (get_field NationalId d) \<noteq> []"
    using assms by (auto simp: validate_cases js_Nil)
  then show ?thesis by blast
qed

lemma map_of_entries_Some:
  "map_of (entries d) k = Some v \<Longrightarrow> \<exists>f. k = field_name f \<and> v = get_field f d"
  using map_of_SomeD [of "entries d" k v] by (auto simp: set_entries)

lemma validate_all_field:
  "fst (validate_all d) (field_name f) =
     (if validateField (field_name f) (get_field f d) = [] then None
      else Some (validateField (field_name f) (get_field f d)))"
  by (simp add: validate_all_eq map_of_entries)

lemma validate_all_other: "k \<notin> range field_name \<Longrightarrow> fst (validate_all d) k = None"
  by (simp add: validate_all_eq map_of_entries_other)

lemma validate_all_flag:
  "snd (validate_all d) \<longleftrightarrow> (\<exists>f. validateField (field_name f) (get_field f d) \<noteq> [])"
  by (simp add: validate_all_eq)

lemma submit_begin_invalid:
  assumes "event s = Some e" "\<not> eventDisabled s" "\<not> companyDisabled s"
    and "\<exists>f. validateField (field_name f) (get_field f (formData s)) \<noteq> []"
  shows "submit_begin cn s = Stopped (s\<lparr>formErrors := fst (validate_all (formData s))\<rparr>)"
  using assms by (simp add: submit_begin_def validate_all_eq)

lemma submit_begin_valid:
  assumes "event s = Some e" "\<not> eventDisabled s" "\<not> companyDisabled s"
    and "\<forall>f. validateField (field_name f) (get_field f (formData s)) = []"
  shows "submit_begin cn s =
     Awaiting (s\<lparr>formErrors := Map.empty, submitting := True, error := [],
                 requests := requests s @
                   [Post_Register \<lparr>companyName = cn, eventName = id_ev e, form = formData s\<rparr>]\<rparr>)
       \<lparr>companyName = cn, eventName = id_ev e, form = formData s\<rparr>"
proof -
  have "validate_all (formData s) = (Map.empty, False)"
    using assms(4)
    by (auto simp: validate_all_eq fun_eq_iff split: option.splits dest: map_of_entries_Some)
  with assms show ?thesis by (simp add: submit_begin_def Let_def)
qed

lemma find_first:
  "find P xs = Some e \<longleftrightarrow> (\<exists>pre post. xs = pre @ e # post \<and> P e \<and> (\<forall>x\<in>set pre. \<not> P x))"
proof (induction xs)
  case Nil
  show ?case by simp
next
  case (Cons a xs)
  show ?case
  proof (cases "P a")
    case True
    have "(\<exists>pre post. a # xs = pre @ e # post \<and> P e \<and> (\<forall>x\<in>set pre. \<not> P x)) \<longleftrightarrow> a = e"
    proof
      assume "\<exists>pre post. a # xs = pre @ e # post \<and> P e \<and> (\<forall>x\<in>set pre. \<not> P x)"
      then obtain pre post where p: "a # xs = pre @ e # post" "\<forall>x\<in>set pre. \<not> P x" by blast
      show "a = e"
      proof (cases pre)
        case Nil
        with p show ?thesis by simp
      next
        case (Cons b pre')
        with p True show ?thesis by auto
      qed
    next
      assume "a = e"
      with True have "a # xs = [] @ e # xs \<and> P e \<and> (\<forall>x\<in>set []. \<not> P x)" by simp
      then show "\<exists>pre post. a # xs = pre @ e # post \<and> P e \<and> (\<forall>x\<in>set pre. \<not> P x)" by blast
    qed
    with True show ?thesis by auto
  next
    case False
    have "(\<exists>pre post. a # xs = pre @ e # post \<and> P e \<and> (\<forall>x\<in>set pre. \<not> P x)) \<longleftrightarrow>
          (\<exists>pre post. xs = pre @ e # post \<and> P e \<and> (\<forall>x\<in>set pre. \<not> P x))"
    proof
      assume "\<exists>pre post. a # xs = pre @ e # post \<and> P e \<and> (\<forall>x\<in>set pre. \<not> P x)"
      then obtain pre post where p: "a # xs = pre @ e # post" "P e" "\<forall>x\<in>set pre. \<not> P x"
        by blast
      show "\<exists>pre post. xs = pre @ e # post \<and> P e \<and> (\<forall>x\<in>set pre. \<not> P x)"
      proof (cases pre)
        case Nil
        with p False show ?thesis by simp
      next
        case (Cons b pre')
        with p have "xs = pre' @ e # post \<and> P e \<and> (\<forall>x\<in>set pre'. \<not> P x)" by simp
        then show ?thesis by blast
      qed
    next
      assume "\<exists>pre post. xs = pre @ e # post \<and> P e \<and> (\<forall>x\<in>set pre. \<not> P x)"
      then obtain pre post where "xs = pre @ e # post" "P e" "\<forall>x\<in>set pre. \<not> P x" by blast
      with False have "a # xs = (a # pre) @ e # post \<and> P e \<and> (\<forall>x\<in>set (a # pre). \<not> P x)"
        by simp
      then show "\<exists>pre post. a # xs = pre @ e # post \<and> P e \<and> (\<forall>x\<in>set pre. \<not> P x)" by blast
    qed
    with False Cons show ?thesis by simp
  qed
qed

lemma load_found:
  assumes "ok st" and "find_event lc eid evs = Some e"
    and "status_ev e \<noteq> Some (js ''disabled'')"
    and "companyStatus e \<noteq> Some (js ''disabled'')"
  shows "page_load lc cn eid (Lookup_Response st evs) r2 =
           initial\<lparr>loading := False, event := Some e, requests := [Get_Events cn]\<rparr>"
  using assms
  by (simp add: page_load_def fetchEventDetails_def try_fetch_def initial_def)

lemma handleChange_form:
  "get_field g (formData (handleChange f v s)) = (if g = f then v else get_field g (formData s))"
  by (cases f; cases g; simp add: handleChange_def Let_def)

lemma handleChange_errors:
  "formErrors (handleChange f v s) k =
     (if k = field_name f then Some (validateField (field_name f) v) else formErrors s k)"
  by (simp add: handleChange_def Let_def)

lemma validate_all_dom:
  "dom (fst (validate_all d)) \<subseteq> field_name ` {Name, Phone, Email, College, NationalId}"
proof
  fix k assume "k \<in> dom (fst (validate_all d))"
  then have k: "fst (validate_all d) k \<noteq> None" by (simp add: dom_def)
  have "k \<in> range field_name"
  proof (rule ccontr)
    assume "k \<notin> range field_name"
    then have "fst (validate_all d) k = None" by (rule validate_all_other)
    with k show False by simp
  qed
  then obtain f where f: "k = field_name f" ..
  have v: "validateField (field_name f) (get_field f d) \<noteq> []"
  proof
    assume "validateField (field_name f) (get_field f d) = []"
    then have "fst (validate_all d) (field_name f) = None"
      by (simp add: validate_all_field)
    with k f show False by simp
  qed
  have "f \<noteq> Gender"
  proof
    assume "f = Gender"
    with v show False by (simp add: validate_select)
  qed
  moreover have "f \<noteq> Status"
  proof
    assume "f = Status"
    with v show False by (simp add: validate_select)
  qed
  ultimately have "f \<in> {Name, Phone, Email, College, NationalId}" by (cases f) simp_all
  with f show "k \<in> field_name ` {Name, Phone, Email, College, NationalId}" by blast
qed

lemma submit_begin_Awaiting:
  assumes "submit_begin cn s = Awaiting s1 body"
  shows "\<exists>ev. event s = Some ev \<and> \<not> eventDisabled s \<and> \<not> companyDisabled s \<and>
           body = \<lparr>companyName = cn, eventName = id_ev ev, form = formData s\<rparr> \<and>
           s1 = s\<lparr>formErrors := fst (validate_all (formData s)), submitting := True,
                  error := [], requests := requests s @ [Post_Register body]\<rparr>"
  using assms
  by (auto simp: submit_begin_def Let_def split: option.splits if_splits prod.splits)

lemma ada_facts:
  "render (acme_session ada_typing) = Editing"
  "event (acme_session ada_typing) = Some launch_party"
  "\<not> eventDisabled (acme_session ada_typing)"
  "\<not> companyDisabled (acme_session ada_typing)"
  "formData (acme_session ada_typing) = ada_form"
  by code_simp+

lemma ada_valid:
  "\<forall>f. validateField (field_name f) (get_field f (formData (acme_session ada_typing))) = []"
  unfolding ada_facts(5)
proof
  fix f show "validateField (field_name f) (get_field f ada_form) = []"
    by (induct f; code_simp)
qed

lemma ada_submit_begin:
  "submit_begin (js ''Acme'') (acme_session ada_typing) = Awaiting ada_waiting ada_body"
  unfolding submit_begin_valid [OF ada_facts(2) ada_facts(3) ada_facts(4) ada_valid]
  by (simp add: ada_waiting_def ada_body_def ada_facts(5) launch_party_def)

section \<open>The claims\<close>

text \<open>
  C1. In every state that a session reaches and that shows the form for editing, if one
  of the five free-text fields is empty after trimming or fails its pattern, the submit
  action validates all of them again, stores exactly the resulting messages in the error
  map (one entry for each field whose message is not empty, no other entry), sends no
  request, does not set \<^verbatim>\<open>submitting\<close>, and leaves the page in the editing view with the
  form data as they were.
\<close>

theorem invalid_form_is_not_submitted:
  assumes "s = session toLowerCase company eventId r1 r2 acts"
    and "render s = Editing"
    and "trim (name (formData s)) = [] \<or> trim (phone (formData s)) = [] \<or>
         \<not> test phone_pattern (phone (formData s)) \<or> trim (email (formData s)) = [] \<or>
         \<not> test email_pattern (email (formData s)) \<or> trim (college (formData s)) = [] \<or>
         trim (nationalId (formData s)) = []"
  shows "submit_begin company s = Stopped (handleSubmit company respond s) \<and>
    (\<forall>f. formErrors (handleSubmit company respond s) (field_name f) =
       (if validateField (field_name f) (get_field f (formData s)) = [] then None
        else Some (validateField (field_name f) (get_field f (formData s))))) \<and>
    dom (formErrors (handleSubmit company respond s)) \<subseteq>
      field_name ` {Name, Phone, Email, College, NationalId} \<and>
    formErrors (handleSubmit company respond s) \<noteq> Map.empty \<and>
    formData (handleSubmit company respond s) = formData s \<and>
    requests (handleSubmit company respond s) = requests s \<and>
    \<not> submitting (handleSubmit company respond s) \<and>
    render (handleSubmit company respond s) = Editing"
proof -
  let ?errors = "fst (validate_all (formData s))"
  from assms(1,2) obtain e where e: "event s = Some e"
    using session_editing by blast
  from assms(2) have fl: "\<not> loading s" "error s = []" "\<not> submitting s" "\<not> eventDisabled s"
    "\<not> companyDisabled s" "\<not> success s"
    by (simp_all add: editing_flags)
  from assms(3) obtain f0 where
    f0: "validateField (field_name f0) (get_field f0 (formData s)) \<noteq> []"
    using invalid_field by blast
  then have ex: "\<exists>f. validateField (field_name f) (get_field f (formData s)) \<noteq> []" ..
  have sb: "submit_begin company s = Stopped (s\<lparr>formErrors := ?errors\<rparr>)"
    using e fl(4) fl(5) ex by (rule submit_begin_invalid)
  then have hs: "handleSubmit company respond s = s\<lparr>formErrors := ?errors\<rparr>"
    by (simp add: handleSubmit_def)
  have d: "dom ?errors \<subseteq> field_name ` {Name, Phone, Email, College, NationalId}"
    by (rule validate_all_dom)
  have ne: "?errors \<noteq> Map.empty"
  proof
    assume "?errors = Map.empty"
    then have "?errors (field_name f0) = None" by simp
    with f0 show False by (simp add: validate_all_field)
  qed
  have c1: "submit_begin company s = Stopped (handleSubmit company respond s)"
    unfolding hs by (rule sb)
  have c2: "\<forall>f. formErrors (handleSubmit company respond s) (field_name f) =
       (if validateField (field_name f) (get_field f (formData s)) = [] then None
        else Some (validateField (field_name f) (get_field f (formData s))))"
    unfolding hs by (simp add: validate_all_field)
  have c3: "dom (formErrors (handleSubmit company respond s)) \<subseteq>
      field_name ` {Name, Phone, Email, College, NationalId}"
    unfolding hs using d by simp
  have c4: "formErrors (handleSubmit company respond s) \<noteq> Map.empty"
    unfolding hs using ne by simp
  have c5: "formData (handleSubmit company respond s) = formData s"
    "requests (handleSubmit company respond s) = requests s"
    "\<not> submitting (handleSubmit company respond s)"
    unfolding hs using fl(3) by simp_all
  have c8: "render (handleSubmit company respond s) = Editing"
    unfolding hs using fl by (simp add: editing_flags)
  from c1 c2 c3 c4 c5 c8 show ?thesis by blast
qed

theorem invalid_form_is_not_submitted_witness:
  "render (acme_session [Change Name (js ''Ada Lovelace''), Change Phone (js ''12345'')]) =
     Editing \<and>
   phone (formData (acme_session [Change Name (js ''Ada Lovelace''),
     Change Phone (js ''12345'')])) = js ''12345'' \<and>
   \<not> test phone_pattern (js ''12345'') \<and>
   submit_begin (js ''Acme'')
       (acme_session [Change Name (js ''Ada Lovelace''), Change Phone (js ''12345'')]) =
     Stopped (handleSubmit (js ''Acme'') (\<lambda>b. Register_Response 200 None)
       (acme_session [Change Name (js ''Ada Lovelace''), Change Phone (js ''12345'')])) \<and>
   formErrors (handleSubmit (js ''Acme'') (\<lambda>b. Register_Response 200 None)
       (acme_session [Change Name (js ''Ada Lovelace''), Change Phone (js ''12345'')]))
     (js ''phone'') = Some (js ''Invalid phone number format. Must be 10-15 digits'') \<and>
   formErrors (handleSubmit (js ''Acme'') (\<lambda>b. Register_Response 200 None)
       (acme_session [Change Name (js ''Ada Lovelace''), Change Phone (js ''12345'')]))
     (js ''name'') = None \<and>
   requests (handleSubmit (js ''Acme'') (\<lambda>b. Register_Response 200 None)
       (acme_session [Change Name (js ''Ada Lovelace''), Change Phone (js ''12345'')])) =
     [Get_Events (js ''Acme'')] \<and>
   render (handleSubmit (js ''Acme'') (\<lambda>b. Register_Response 200 None)
       (acme_session [Change Name (js ''Ada Lovelace''), Change Phone (js ''12345'')])) =
     Editing"
proof -
  let ?s = "acme_session [Change Name (js ''Ada Lovelace''), Change Phone (js ''12345'')]"
  have h1: "render ?s = Editing" by code_simp
  have d: "formData ?s = empty_form\<lparr>name := js ''Ada Lovelace'', phone := js ''12345''\<rparr>"
    by code_simp
  have q: "requests ?s = [Get_Events (js ''Acme'')]" by code_simp
  have p: "\<not> test phone_pattern (js ''12345'')" by code_simp
  from d have ph: "phone (formData ?s) = js ''12345''" by simp
  from p ph have h2: "trim (name (formData ?s)) = [] \<or> trim (phone (formData ?s)) = [] \<or>
         \<not> test phone_pattern (phone (formData ?s)) \<or> trim (email (formData ?s)) = [] \<or>
         \<not> test email_pattern (email (formData ?s)) \<or> trim (college (formData ?s)) = [] \<or>
         trim (nationalId (formData ?s)) = []"
    by simp
  have v1: "validateField (field_name Phone) (get_field Phone (formData ?s)) =
      js ''Invalid phone number format. Must be 10-15 digits''"
    unfolding d by code_simp
  have v2: "validateField (field_name Name) (get_field Name (formData ?s)) = []"
    unfolding d by code_simp
  have m: "js ''Invalid phone number format. Must be 10-15 digits'' \<noteq> []"
    by (simp add: js_Nil)
  note t = invalid_form_is_not_submitted
    [OF acme_session_def h1 h2, of "\<lambda>b. Register_Response 200 None"]
  note t1 = t [THEN conjunct1]
  note t2 = t [THEN conjunct2, THEN conjunct1, THEN spec]
  note t6 = t [THEN conjunct2, THEN conjunct2, THEN conjunct2, THEN conjunct2,
    THEN conjunct2, THEN conjunct1]
  note t8 = t [THEN conjunct2, THEN conjunct2, THEN conjunct2, THEN conjunct2,
    THEN conjunct2, THEN conjunct2, THEN conjunct2]
  have e1: "formErrors (handleSubmit (js ''Acme'') (\<lambda>b. Register_Response 200 None) ?s)
     (js ''phone'') = Some (js ''Invalid phone number format. Must be 10-15 digits'')"
    using t2 [of Phone] m unfolding v1 by (simp only: field_name.simps if_False)
  have e2: "formErrors (handleSubmit (js ''Acme'') (\<lambda>b. Register_Response 200 None) ?s)
     (js ''name'') = None"
    using t2 [of Name] unfolding v2 by (simp only: field_name.simps if_True refl)
  have e3: "requests (handleSubmit (js ''Acme'') (\<lambda>b. Register_Response 200 None) ?s) =
     [Get_Events (js ''Acme'')]"
    using t6 unfolding q .
  from h1 ph p t1 e1 e2 e3 t8 show ?thesis by blast
qed

text \<open>
  C2. For every string \<open>s\<close>, \<^verbatim>\<open>validateField('phone', s)\<close> is the empty string exactly
  when \<open>s\<close> consists of 10 to 15 ASCII digits and nothing else; in every other case it
  is one of the two non-empty messages of the phone branch.
\<close>

theorem phone_validation:
  "(validateField (js ''phone'') s = [] \<longleftrightarrow>
      10 \<le> length s \<and> length s \<le> 15 \<and> (\<forall>c\<in>set s. is_digit c)) \<and>
   (validateField (js ''phone'') s = [] \<or>
    validateField (js ''phone'') s = js ''Phone number is required'' \<or>
    validateField (js ''phone'') s = js ''Invalid phone number format. Must be 10-15 digits'') \<and>
   js ''Phone number is required'' \<noteq> [] \<and>
   js ''Invalid phone number format. Must be 10-15 digits'' \<noteq> []"
proof -
  have a: "validateField (js ''phone'') s = [] \<longleftrightarrow>
      10 \<le> length s \<and> length s \<le> 15 \<and> (\<forall>c\<in>set s. is_digit c)"
    by (rule validate_phone)
  have b: "validateField (js ''phone'') s = [] \<or>
      validateField (js ''phone'') s = js ''Phone number is required'' \<or>
      validateField (js ''phone'') s = js ''Invalid phone number format. Must be 10-15 digits''"
    by (simp add: validate_cases)
  have c: "js ''Phone number is required'' \<noteq> []"
    "js ''Invalid phone number format. Must be 10-15 digits'' \<noteq> []"
    by (simp_all add: js_Nil)
  from a b c show ?thesis by blast
qed

theorem phone_validation_witness:
  "validateField (js ''phone'') (js ''1234567890'') = [] \<and>
   length (js ''1234567890'') = 10 \<and> list_all is_digit (js ''1234567890'') \<and>
   validateField (js ''phone'') (js ''12345'') \<noteq> [] \<and> length (js ''12345'') = 5"
proof -
  have a: "length (js ''1234567890'') = 10 \<and> list_all is_digit (js ''1234567890'')"
    by (simp add: js_def is_digit_def)
  have b: "length (js ''12345'') = 5"
    by (simp add: js_def)
  from a b show ?thesis
    using phone_validation [of "js ''1234567890''"] phone_validation [of "js ''12345''"]
    by (simp add: list_all_iff)
qed

text \<open>
  C3, as the specification words it, fails: \<^verbatim>\<open>a@.b\<close> has exactly one \<^verbatim>\<open>@\<close> and a \<^verbatim>\<open>.\<close> in its
  domain part, and \<^verbatim>\<open>validateField('email', 'a@.b')\<close> is an error message.
\<close>

theorem email_one_at_and_dot_rejected:
  "spec_email_shape (js ''a@.b'') \<and> validateField (js ''email'') (js ''a@.b'') \<noteq> []"
  by code_simp

text \<open>
  C3, amended. For every string \<open>s\<close>, \<^verbatim>\<open>validateField('email', s)\<close> is the empty string
  exactly when \<open>s\<close> contains no white space, contains exactly one \<^verbatim>\<open>@\<close>, has a non-empty
  local part before it, and has in the domain part after it a \<^verbatim>\<open>.\<close> that is neither the
  first nor the last code unit of the domain. Such a string also has the shape that
  the specification names.
\<close>

theorem email_validation:
  "(validateField (js ''email'') s = [] \<longleftrightarrow>
      (\<forall>c\<in>set s. \<not> is_space c) \<and> count_list s at_sign = 1 \<and> local_part s \<noteq> [] \<and>
      dot \<in> set (butlast (tl (domain_part s)))) \<and>
   (validateField (js ''email'') s = [] \<longrightarrow> spec_email_shape s)"
proof -
  have "dot \<in> set (domain_part s)" if "dot \<in> set (butlast (tl (domain_part s)))"
  proof -
    from that have "dot \<in> set (tl (domain_part s))" by (rule in_set_butlastD)
    then show ?thesis by (cases "domain_part s") auto
  qed
  then show ?thesis
    using validate_email [of s] by (auto simp: email_shape_def spec_email_shape_def)
qed

theorem email_validation_witness:
  "validateField (js ''email'') (js ''a@b.co'') = [] \<and>
   list_all (\<lambda>c. \<not> is_space c) (js ''a@b.co'') \<and> count_list (js ''a@b.co'') at_sign = 1 \<and>
   local_part (js ''a@b.co'') = js ''a'' \<and> domain_part (js ''a@b.co'') = js ''b.co'' \<and>
   dot \<in> set (butlast (tl (domain_part (js ''a@b.co'')))) \<and>
   spec_email_shape (js ''a@b.co'')"
proof -
  have c: "list_all (\<lambda>c. \<not> is_space c) (js ''a@b.co'') \<and>
    count_list (js ''a@b.co'') at_sign = 1 \<and>
    local_part (js ''a@b.co'') = js ''a'' \<and> domain_part (js ''a@b.co'') = js ''b.co'' \<and>
    dot \<in> set (butlast (tl (domain_part (js ''a@b.co''))))"
    by code_simp
  have n: "local_part (js ''a@b.co'') \<noteq> []"
    by code_simp
  from c have q: "\<forall>c\<in>set (js ''a@b.co''). \<not> is_space c"
    unfolding list_all_iff by (rule conjunct1)
  from c n q have "validateField (js ''email'') (js ''a@b.co'') = [] \<and>
      spec_email_shape (js ''a@b.co'')"
    using email_validation [of "js ''a@b.co''"] by blast
  with c show ?thesis by blast
qed

text \<open>
  C4 says that a lookup answered with status 403 ends in the view for a disabled
  organization, ahead of the generic error. The code does not do that: the first run of
  the effect sets \<^verbatim>\<open>companyDisabled\<close> and then, in its \<^verbatim>\<open>catch\<close> block, still reads the
  value \<^verbatim>\<open>false\<close> of its closure and sets the generic message; the second run never
  clears it, and the component tests \<^verbatim>\<open>error\<close> before the two disabled flags. Whatever
  the organization, the event identifier, the body of the response and the answer to
  the second request, the page ends in the blocking error view with the generic
  message, although \<^verbatim>\<open>companyDisabled\<close> is set.
\<close>

theorem access_denied_shows_not_found:
  "render (page_load toLowerCase company eventId (Lookup_Response 403 evs) r2) =
     Fetch_Error (js ''Event not found or no longer available'') \<and>
   companyDisabled (page_load toLowerCase company eventId (Lookup_Response 403 evs) r2) \<and>
   render (page_load toLowerCase company eventId (Lookup_Response 403 evs) r2) \<noteq> Org_Disabled"
proof -
  let ?L = "page_load toLowerCase company eventId (Lookup_Response 403 evs) r2"
  have r: "render ?L = Fetch_Error (js ''Event not found or no longer available'')"
    by (rule load_403)
  have cd: "companyDisabled ?L"
  proof -
    let ?s1 = "fetchEventDetails toLowerCase company eventId False (Lookup_Response 403 evs) initial"
    have i: "companyDisabled initial = False" by (simp add: initial_def)
    have s1: "companyDisabled ?s1" by (simp add: first_run_403)
    then have "?L = fetchEventDetails toLowerCase company eventId True r2 ?s1"
      by (simp add: page_load_def i Let_def)
    moreover have "companyDisabled (fetchEventDetails toLowerCase company eventId True r2 ?s1)"
      using s1
      by (auto simp: fetchEventDetails_def [of toLowerCase company eventId True]
          try_fetch_def Let_def split: lookup.splits option.splits)
    ultimately show ?thesis by simp
  qed
  from r cd show ?thesis by simp
qed

theorem access_denied_shows_not_found_witness:
  "render (page_load toLowerCase_ascii (js ''Acme'') (js ''Launch-Party'')
     (Lookup_Response 403 []) (Lookup_Response 403 [])) =
     Fetch_Error (js ''Event not found or no longer available'')"
  using access_denied_shows_not_found
    [of toLowerCase_ascii "js ''Acme''" "js ''Launch-Party''" "[]" "Lookup_Response 403 []"]
  by blast

text \<open>
  C5. When the lookup succeeds, the resolver finds an event, the status of that event
  is \<^verbatim>\<open>'disabled'\<close> and the status of its organization is not, the page ends in the
  blocking view for a disabled event (no form is rendered), holding that event and no
  error message.
\<close>

theorem disabled_event_is_blocked:
  assumes "ok st" and "find_event toLowerCase eventId evs = Some e"
    and "status_ev e = Some (js ''disabled'')"
    and "companyStatus e \<noteq> Some (js ''disabled'')"
  shows "render (page_load toLowerCase company eventId (Lookup_Response st evs) r2) =
           Event_Disabled \<and>
         event (page_load toLowerCase company eventId (Lookup_Response st evs) r2) = Some e \<and>
         error (page_load toLowerCase company eventId (Lookup_Response st evs) r2) = []"
  using assms
  by (simp add: page_load_def fetchEventDetails_def try_fetch_def initial_def render_def)

theorem disabled_event_is_blocked_witness:
  "ok 200 \<and>
   find_event toLowerCase_ascii (js ''Launch-Party'') [closed_party] = Some closed_party \<and>
   status_ev closed_party = Some (js ''disabled'') \<and> companyStatus closed_party = None \<and>
   render (page_load toLowerCase_ascii (js ''Acme'') (js ''Launch-Party'')
     (Lookup_Response 200 [closed_party]) Lookup_Rejected) = Event_Disabled"
proof -
  have a: "ok 200" by (simp add: ok_def)
  have b: "find_event toLowerCase_ascii (js ''Launch-Party'') [closed_party] = Some closed_party"
    by code_simp
  have c: "status_ev closed_party = Some (js ''disabled'')"
    by (simp add: closed_party_def)
  have d: "companyStatus closed_party = None"
    by (simp add: closed_party_def launch_party_def)
  then have d': "companyStatus closed_party \<noteq> Some (js ''disabled'')" by simp
  from disabled_event_is_blocked [OF a b c d', of "js ''Acme''" Lookup_Rejected] a b c d
  show ?thesis by blast
qed

text \<open>
  C6, as stated, fails when two events of the list match: the identifier of the second
  event equals the requested one after trimming and lower-casing, and the resolver does
  not select it.
\<close>

theorem later_match_is_not_selected:
  "shouting_party \<in> set [launch_party, shouting_party] \<and>
   toLowerCase_ascii (trim (id_ev shouting_party)) =
     toLowerCase_ascii (trim (js ''Launch-Party'')) \<and>
   find_event toLowerCase_ascii (js ''Launch-Party'') [launch_party, shouting_party] \<noteq>
     Some shouting_party"
proof -
  have "toLowerCase_ascii (trim (id_ev shouting_party)) =
     toLowerCase_ascii (trim (js ''Launch-Party''))"
    by code_simp
  moreover have "find_event toLowerCase_ascii (js ''Launch-Party'')
       [launch_party, shouting_party] = Some launch_party"
    by code_simp
  moreover have "launch_party \<noteq> shouting_party"
  proof
    assume "launch_party = shouting_party"
    then have "id_ev launch_party = id_ev shouting_party" by simp
    then show False by (simp add: launch_party_def shouting_party_def js_def)
  qed
  ultimately show ?thesis by simp
qed

text \<open>
  C6, amended. For every requested identifier and every list of events, the resolver
  selects the first event of the list whose identifier equals the requested one after
  trimming and lower-casing both, and selects none exactly when no event of the list
  does; when the lookup succeeded and neither status of the selected event is
  \<^verbatim>\<open>'disabled'\<close>, the page ends in the editing view holding that event. In particular
  \<^verbatim>\<open>Launch-Party\<close> matches the stored \<^verbatim>\<open>launch-party\<close> and the page reaches the editing
  view.
\<close>

theorem resolver_selects_first_match:
  "(find_event toLowerCase eventId evs = Some e \<longleftrightarrow>
      (\<exists>pre post. evs = pre @ e # post \<and>
         toLowerCase (trim (id_ev e)) = toLowerCase (trim eventId) \<and>
         (\<forall>x\<in>set pre. toLowerCase (trim (id_ev x)) \<noteq> toLowerCase (trim eventId)))) \<and>
   (find_event toLowerCase eventId evs = None \<longleftrightarrow>
      (\<forall>x\<in>set evs. toLowerCase (trim (id_ev x)) \<noteq> toLowerCase (trim eventId))) \<and>
   (ok st \<and> find_event toLowerCase eventId evs = Some e \<and>
    status_ev e \<noteq> Some (js ''disabled'') \<and> companyStatus e \<noteq> Some (js ''disabled'') \<longrightarrow>
      render (page_load toLowerCase company eventId (Lookup_Response st evs) r2) = Editing \<and>
      event (page_load toLowerCase company eventId (Lookup_Response st evs) r2) = Some e) \<and>
   toLowerCase_ascii (trim (js ''launch-party'')) =
     toLowerCase_ascii (trim (js ''Launch-Party'')) \<and>
   render (page_load toLowerCase_ascii (js ''Acme'') (js ''Launch-Party'')
     (Lookup_Response 200 [launch_party]) r2) = Editing"
proof -
  have a: "find_event toLowerCase eventId evs = Some e \<longleftrightarrow>
      (\<exists>pre post. evs = pre @ e # post \<and>
         toLowerCase (trim (id_ev e)) = toLowerCase (trim eventId) \<and>
         (\<forall>x\<in>set pre. toLowerCase (trim (id_ev x)) \<noteq> toLowerCase (trim eventId)))"
    unfolding find_event_def Let_def by (rule find_first)
  have b: "find_event toLowerCase eventId evs = None \<longleftrightarrow>
      (\<forall>x\<in>set evs. toLowerCase (trim (id_ev x)) \<noteq> toLowerCase (trim eventId))"
    unfolding find_event_def Let_def by (auto simp: find_None_iff)
  have c: "render (page_load lc cn eid (Lookup_Response s es) r) = Editing \<and>
      event (page_load lc cn eid (Lookup_Response s es) r) = Some x"
    if "ok s" "find_event lc eid es = Some x" "status_ev x \<noteq> Some (js ''disabled'')"
      "companyStatus x \<noteq> Some (js ''disabled'')" for lc cn eid s es r x
    unfolding load_found [OF that] by (simp add: render_def initial_def)
  have d: "toLowerCase_ascii (trim (js ''launch-party'')) =
     toLowerCase_ascii (trim (js ''Launch-Party''))"
    by code_simp
  have "find_event toLowerCase_ascii (js ''Launch-Party'') [launch_party] = Some launch_party"
    by code_simp
  moreover have "ok 200" by (simp add: ok_def)
  moreover have "status_ev launch_party \<noteq> Some (js ''disabled'')"
    "companyStatus launch_party \<noteq> Some (js ''disabled'')"
    by (simp_all add: launch_party_def)
  ultimately have e: "render (page_load toLowerCase_ascii (js ''Acme'') (js ''Launch-Party'')
     (Lookup_Response 200 [launch_party]) r2) = Editing"
    using c by blast
  from a b c d e show ?thesis by blast
qed

theorem resolver_selects_first_match_witness:
  "[launch_party, shouting_party] = [] @ launch_party # [shouting_party] \<and>
   toLowerCase_ascii (trim (id_ev launch_party)) =
     toLowerCase_ascii (trim (js ''Launch-Party'')) \<and>
   find_event toLowerCase_ascii (js ''Launch-Party'') [launch_party, shouting_party] =
     Some launch_party \<and>
   find_event toLowerCase_ascii (js ''Launch-Party'') [closed_party] \<noteq> None \<and>
   render (page_load toLowerCase_ascii (js ''Acme'') (js ''Launch-Party'')
     (Lookup_Response 200 [launch_party, shouting_party]) Lookup_Rejected) = Editing"
proof -
  have a: "[launch_party, shouting_party] = [] @ launch_party # [shouting_party]" by simp
  have b: "toLowerCase_ascii (trim (id_ev launch_party)) =
     toLowerCase_ascii (trim (js ''Launch-Party''))"
    by code_simp
  have c: "\<forall>x\<in>set []. toLowerCase_ascii (trim (id_ev x)) \<noteq>
     toLowerCase_ascii (trim (js ''Launch-Party''))"
    by simp
  have d: "ok 200" by (simp add: ok_def)
  have e: "status_ev launch_party \<noteq> Some (js ''disabled'')"
    "companyStatus launch_party \<noteq> Some (js ''disabled'')"
    by (simp_all add: launch_party_def)
  have f: "toLowerCase_ascii (trim (id_ev closed_party)) =
     toLowerCase_ascii (trim (js ''Launch-Party''))"
    by code_simp
  note t = resolver_selects_first_match
    [of toLowerCase_ascii "js ''Launch-Party''" "[launch_party, shouting_party]" launch_party
      200 "js ''Acme''" Lookup_Rejected]
  note u = resolver_selects_first_match
    [of toLowerCase_ascii "js ''Launch-Party''" "[closed_party]" closed_party]
  from t a b c have g: "find_event toLowerCase_ascii (js ''Launch-Party'')
      [launch_party, shouting_party] = Some launch_party"
    by blast
  from u f have h: "find_event toLowerCase_ascii (js ''Launch-Party'') [closed_party] \<noteq> None"
    by simp
  from t g d e have "render (page_load toLowerCase_ascii (js ''Acme'') (js ''Launch-Party'')
     (Lookup_Response 200 [launch_party, shouting_party]) Lookup_Rejected) = Editing"
    by blast
  with a b g h show ?thesis by blast
qed

text \<open>
  C7. When the submit action, taken in the editing view, sends the registration request
  and the response is a success, the page passes through the submitting view (inputs
  disabled, no banner) to the success view, every form field is back at its default
  (the free-text fields empty, gender \<^verbatim>\<open>'male'\<close>, status \<^verbatim>\<open>'student'\<close>), and the error map
  is empty.
\<close>

theorem accepted_submission_resets_form:
  assumes "render s = Editing"
    and "submit_begin company s = Awaiting s1 body"
    and "respond body = Register_Response st err"
    and "ok st"
  shows "render s1 = Submitting [] \<and>
    requests s1 = requests s @ [Post_Register body] \<and>
    handleSubmit company respond s = submit_end (Register_Response st err) s1 \<and>
    render (handleSubmit company respond s) = Success \<and>
    formData (handleSubmit company respond s) =
      \<lparr>name = [], phone = [], email = [], gender = js ''male'', college = [],
       status = js ''student'', nationalId = []\<rparr> \<and>
    formErrors (handleSubmit company respond s) = Map.empty \<and>
    \<not> submitting (handleSubmit company respond s)"
proof -
  from assms(1) have fl: "\<not> loading s" "error s = []" "\<not> submitting s" "\<not> eventDisabled s"
    "\<not> companyDisabled s" "\<not> success s"
    by (simp_all add: editing_flags)
  from assms(2) have s1: "s1 = s\<lparr>formErrors := fst (validate_all (formData s)),
      submitting := True, error := [], requests := requests s @ [Post_Register body]\<rparr>"
    using submit_begin_Awaiting by blast
  have hs: "handleSubmit company respond s = submit_end (Register_Response st err) s1"
    using assms(2,3) by (simp add: handleSubmit_def)
  have a: "render s1 = Submitting []" "requests s1 = requests s @ [Post_Register body]"
    unfolding s1 using fl by (simp_all add: render_def)
  have b: "submit_end (Register_Response st err) s1 =
      s1\<lparr>success := True, formData := empty_form, formErrors := Map.empty,
         submitting := False\<rparr>"
    using assms(4) by (simp add: submit_end_def)
  have c: "render (handleSubmit company respond s) = Success"
    "formData (handleSubmit company respond s) = empty_form"
    "formErrors (handleSubmit company respond s) = Map.empty"
    "\<not> submitting (handleSubmit company respond s)"
    unfolding hs b using fl by (simp_all add: s1 render_def)
  from a hs c show ?thesis by (simp add: empty_form_def)
qed

theorem accepted_submission_resets_form_witness:
  "render (acme_session ada_typing) = Editing \<and>
   submit_begin (js ''Acme'') (acme_session ada_typing) = Awaiting ada_waiting ada_body \<and>
   ok 201 \<and>
   render ada_waiting = Submitting [] \<and>
   render (handleSubmit (js ''Acme'') (\<lambda>b. Register_Response 201 None)
     (acme_session ada_typing)) = Success \<and>
   formData (handleSubmit (js ''Acme'') (\<lambda>b. Register_Response 201 None)
     (acme_session ada_typing)) =
     \<lparr>name = [], phone = [], email = [], gender = js ''male'', college = [],
      status = js ''student'', nationalId = []\<rparr> \<and>
   formErrors (handleSubmit (js ''Acme'') (\<lambda>b. Register_Response 201 None)
     (acme_session ada_typing)) = Map.empty"
proof -
  have k: "ok 201" by (simp add: ok_def)
  note t = accepted_submission_resets_form
    [where respond = "\<lambda>b. Register_Response 201 None" and st = 201 and err = None,
      OF ada_facts(1) ada_submit_begin refl k]
  from t ada_facts(1) ada_submit_begin k show ?thesis by blast
qed

text \<open>
  C8 says that after a failed registration request the page is back in the editing view
  with the message in a banner and the form values kept. The code keeps the values and
  stores the message (the \<^verbatim>\<open>error\<close> string of the response body when it is a non-empty
  string, the fallback otherwise), but it does not return to the editing view: once
  \<^verbatim>\<open>submitting\<close> is cleared, \<^verbatim>\<open>error && !submitting\<close> holds and the component returns the
  blocking error view before it reaches the form and its banner.
\<close>

theorem failed_submission_leaves_the_form:
  assumes "render s = Editing"
    and "submit_begin company s = Awaiting s1 body"
    and "respond body = Register_Response st err"
    and "\<not> ok st"
    and "msg = (case err of None \<Rightarrow> js ''Failed to register for event''
                | Some e \<Rightarrow> if e \<noteq> [] then e else js ''Failed to register for event'')"
  shows "error (handleSubmit company respond s) = msg \<and>
    formData (handleSubmit company respond s) = formData s \<and>
    \<not> submitting (handleSubmit company respond s) \<and>
    \<not> success (handleSubmit company respond s) \<and>
    render (handleSubmit company respond s) = Fetch_Error msg \<and>
    render (handleSubmit company respond s) \<noteq> Editing"
proof -
  from assms(1) have fl: "\<not> loading s" "error s = []" "\<not> submitting s" "\<not> eventDisabled s"
    "\<not> companyDisabled s" "\<not> success s"
    by (simp_all add: editing_flags)
  from assms(2) have s1: "s1 = s\<lparr>formErrors := fst (validate_all (formData s)),
      submitting := True, error := [], requests := requests s @ [Post_Register body]\<rparr>"
    using submit_begin_Awaiting by blast
  have hs: "handleSubmit company respond s = submit_end (Register_Response st err) s1"
    using assms(2,3) by (simp add: handleSubmit_def)
  have b: "submit_end (Register_Response st err) s1 = s1\<lparr>error := msg, submitting := False\<rparr>"
    using assms(4,5) by (simp add: submit_end_def)
  have ne: "msg \<noteq> []"
    using assms(5) by (auto simp: js_Nil split: option.splits)
  show ?thesis
    unfolding hs b using fl ne by (simp add: s1 render_def)
qed

theorem failed_submission_leaves_the_form_witness:
  "render (acme_session ada_typing) = Editing \<and>
   submit_begin (js ''Acme'') (acme_session ada_typing) = Awaiting ada_waiting ada_body \<and>
   \<not> ok 409 \<and>
   formData (handleSubmit (js ''Acme'')
     (\<lambda>b. Register_Response 409 (Some (js ''Duplicate registration'')))
     (acme_session ada_typing)) = ada_form \<and>
   render (handleSubmit (js ''Acme'')
     (\<lambda>b. Register_Response 409 (Some (js ''Duplicate registration'')))
     (acme_session ada_typing)) = Fetch_Error (js ''Duplicate registration'')"
proof -
  have k: "\<not> ok 409" by (simp add: ok_def)
  have m: "js ''Duplicate registration'' =
     (case Some (js ''Duplicate registration'') of
        None \<Rightarrow> js ''Failed to register for event''
      | Some e \<Rightarrow> if e \<noteq> [] then e else js ''Failed to register for event'')"
    by (simp add: js_Nil)
  note t = failed_submission_leaves_the_form
    [where respond = "\<lambda>b. Register_Response 409 (Some (js ''Duplicate registration''))"
      and st = 409 and err = "Some (js ''Duplicate registration'')",
      OF ada_facts(1) ada_submit_begin refl k m]
  from t have "formData (handleSubmit (js ''Acme'')
      (\<lambda>b. Register_Response 409 (Some (js ''Duplicate registration'')))
      (acme_session ada_typing)) = ada_form"
    unfolding ada_facts(5) by blast
  with t ada_facts(1) ada_submit_begin k show ?thesis by blast
qed

text \<open>
  C9. A change of one field writes the new value to that field of the form data and
  the result of validating that value to that field's entry of the error map; every
  other field, every other entry of the error map, the event, the two disabled flags,
  the other cells of the state and the view are unchanged, and no request is sent.
\<close>

theorem change_touches_one_field:
  "get_field f (formData (handleChange f v s)) = v \<and>
   (\<forall>g. g \<noteq> f \<longrightarrow> get_field g (formData (handleChange f v s)) = get_field g (formData s)) \<and>
   formErrors (handleChange f v s) (field_name f) = Some (validateField (field_name f) v) \<and>
   (\<forall>k. k \<noteq> field_name f \<longrightarrow> formErrors (handleChange f v s) k = formErrors s k) \<and>
   event (handleChange f v s) = event s \<and>
   eventDisabled (handleChange f v s) = eventDisabled s \<and>
   companyDisabled (handleChange f v s) = companyDisabled s \<and>
   loading (handleChange f v s) = loading s \<and>
   submitting (handleChange f v s) = submitting s \<and>
   error (handleChange f v s) = error s \<and>
   success (handleChange f v s) = success s \<and>
   requests (handleChange f v s) = requests s \<and>
   render (handleChange f v s) = render s"
  by (simp add: handleChange_form handleChange_errors handleChange_keeps render_def)

theorem change_touches_one_field_witness:
  "phone (formData (handleChange Phone (js ''12345'') (acme_session []))) = js ''12345'' \<and>
   email (formData (handleChange Phone (js ''12345'') (acme_session []))) =
     email (formData (acme_session [])) \<and>
   formErrors (handleChange Phone (js ''12345'') (acme_session [])) (js ''phone'') =
     Some (js ''Invalid phone number format. Must be 10-15 digits'') \<and>
   formErrors (handleChange Phone (js ''12345'') (acme_session [])) (js ''email'') =
     formErrors (acme_session []) (js ''email'') \<and>
   event (handleChange Phone (js ''12345'') (acme_session [])) = event (acme_session []) \<and>
   requests (handleChange Phone (js ''12345'') (acme_session [])) = requests (acme_session [])"
proof -
  note t = change_touches_one_field [of Phone "js ''12345''" "acme_session []"]
  have a: "Email \<noteq> Phone" by simp
  have b: "js ''email'' \<noteq> field_name Phone" by (simp add: js_def)
  have c: "validateField (field_name Phone) (js ''12345'') =
     js ''Invalid phone number format. Must be 10-15 digits''"
    by code_simp
  have d: "field_name Phone = js ''phone''" by simp
  from t a have "get_field Email (formData (handleChange Phone (js ''12345'') (acme_session []))) =
     get_field Email (formData (acme_session []))"
    by blast
  moreover from t b have "formErrors (handleChange Phone (js ''12345'') (acme_session []))
     (js ''email'') = formErrors (acme_session []) (js ''email'')"
    by blast
  moreover from t have "get_field Phone (formData (handleChange Phone (js ''12345'')
     (acme_session []))) = js ''12345''"
    by blast
  moreover from t c d have "formErrors (handleChange Phone (js ''12345'') (acme_session []))
     (js ''phone'') = Some (js ''Invalid phone number format. Must be 10-15 digits'')"
    by simp
  ultimately show ?thesis using t by simp
qed

text \<open>
  C10. In every state that a session reaches and that shows the form for editing, when
  the submit action passes validation and sends the registration request, its
  \<^verbatim>\<open>eventName\<close> is the identifier of the event that the resolver selected from the list,
  as the list holds it, its \<^verbatim>\<open>companyName\<close> is the organization of the page and the other
  fields are the form data. The witness opens the page as \<^verbatim>\<open>Launch-Party\<close> and submits
  under \<^verbatim>\<open>launch-party\<close>.
\<close>

theorem registration_names_the_stored_event:
  assumes "s = session toLowerCase company eventId (Lookup_Response st evs) r2 acts"
    and "render s = Editing"
    and "submit_begin company s = Awaiting s1 body"
  shows "\<exists>e. find_event toLowerCase eventId evs = Some e \<and> e \<in> set evs \<and>
           eventName body = id_ev e \<and> companyName body = company \<and>
           form body = formData s \<and>
           requests s1 = requests s @ [Post_Register body]"
proof -
  from assms(1,2) obtain e where e: "find_event toLowerCase eventId evs = Some e"
      "event s = Some e"
    using session_editing [of toLowerCase company eventId "Lookup_Response st evs" r2 acts]
    by auto
  from e(1) have "e \<in> set evs"
    unfolding find_event_def Let_def find_first by auto
  moreover from assms(3) e(2) have "body = \<lparr>companyName = company, eventName = id_ev e,
      form = formData s\<rparr>" "requests s1 = requests s @ [Post_Register body]"
    using submit_begin_Awaiting [of company s s1 body] by auto
  ultimately show ?thesis using e(1) by auto
qed

theorem registration_names_the_stored_event_witness:
  "render (acme_session ada_typing) = Editing \<and>
   submit_begin (js ''Acme'') (acme_session ada_typing) = Awaiting ada_waiting ada_body \<and>
   find_event toLowerCase_ascii (js ''Launch-Party'') [launch_party] = Some launch_party \<and>
   eventName ada_body = id_ev launch_party \<and>
   eventName ada_body = js ''launch-party'' \<and>
   eventName ada_body \<noteq> js ''Launch-Party''"
proof -
  from registration_names_the_stored_event
    [OF acme_session_def ada_facts(1) ada_submit_begin]
  obtain e where "find_event toLowerCase_ascii (js ''Launch-Party'') [launch_party] = Some e"
    "e \<in> set [launch_party]" "eventName ada_body = id_ev e"
    by blast
  then have "find_event toLowerCase_ascii (js ''Launch-Party'') [launch_party] =
      Some launch_party" "eventName ada_body = id_ev launch_party"
    by simp_all
  moreover have "eventName ada_body = js ''launch-party''"
    "eventName ada_body \<noteq> js ''Launch-Party''"
    by (simp_all add: ada_body_def js_def)
  ultimately show ?thesis using ada_facts(1) ada_submit_begin by blast
qed

end
